theory Spec2Isabelle
  imports Main
begin

section \<open>The object store\<close>

text \<open>
  A Handler and an Event are identified by their storage location; the vectors
  \<open>m_subscribedTo\<close> and \<open>m_handler\<close> hold raw pointers. The embedding keeps one
  store for all objects: an address is a natural number, and each member of the two
  classes is a field of the store indexed by the address of the object it belongs to.
\<close>

type_synonym hid = nat
type_synonym eid = nat

text \<open>
  What a call of \<open>std::function\<close> can throw: \<open>std::bad_function_call\<close> when the
  function object is empty, or whatever the wrapped callable throws.
\<close>

datatype 'x exn = bad_function_call | thrown 'x

text \<open>
  A reaction takes the arguments and the part of the program state that lies outside
  the two classes (\<open>world\<close>); it gives the new world and the exception it threw, if any.
  Reactions that call back into the Event or Handler they are invoked from are outside
  this model.
\<close>

type_synonym ('a, 'w, 'x) reaction = "'a \<Rightarrow> 'w \<Rightarrow> 'w \<times> 'x exn option"

text \<open>
  \<open>m_function\<close> is \<open>None\<close> for an empty \<open>std::function\<close>. The field \<open>calls\<close> has no
  counterpart in the source: it records every entry into \<open>Handler::invoke\<close>, so that
  the order of invocation can be stated.
\<close>

record ('a, 'w, 'x) store =
  m_function :: "hid \<Rightarrow> ('a, 'w, 'x) reaction option"
  m_subscribedTo :: "hid \<Rightarrow> eid list"
  m_handler :: "eid \<Rightarrow> hid list"
  world :: 'w
  calls :: "(hid \<times> 'a) list"

subsection \<open>Vector primitives\<close>

text \<open>\<open>std::find\<close>: the position of the first element equal to \<open>x\<close>; \<open>None\<close> is \<open>end()\<close>.\<close>

fun std_find :: "'a list \<Rightarrow> 'a \<Rightarrow> nat option" where
  "std_find [] x = None"
| "std_find (y # ys) x = (if y = x then Some 0 else map_option Suc (std_find ys x))"

text \<open>\<open>vector::erase(it)\<close> for a dereferenceable iterator.\<close>

definition erase :: "'a list \<Rightarrow> nat \<Rightarrow> 'a list" where
  "erase xs it = take it xs @ drop (Suc it) xs"

definition push_back :: "'a list \<Rightarrow> 'a \<Rightarrow> 'a list" where
  "push_back xs x = xs @ [x]"

section \<open>Handler\<close>

definition Handler_ctor ::
  "hid \<Rightarrow> ('a, 'w, 'x) reaction \<Rightarrow> ('a, 'w, 'x) store \<Rightarrow> ('a, 'w, 'x) store" where
  "Handler_ctor this function s =
     s\<lparr>m_function := (m_function s)(this := Some function),
       m_subscribedTo := (m_subscribedTo s)(this := [])\<rparr>"

definition removeEvent :: "hid \<Rightarrow> eid \<Rightarrow> ('a, 'w, 'x) store \<Rightarrow> ('a, 'w, 'x) store" where
  "removeEvent this e s =
     (case std_find (m_subscribedTo s this) e of
        None \<Rightarrow> s
      | Some it \<Rightarrow> s\<lparr>m_subscribedTo := (m_subscribedTo s)(this := erase (m_subscribedTo s this) it)\<rparr>)"

definition addEvent :: "hid \<Rightarrow> eid \<Rightarrow> ('a, 'w, 'x) store \<Rightarrow> ('a, 'w, 'x) store" where
  "addEvent this e s =
     s\<lparr>m_subscribedTo := (m_subscribedTo s)(this := push_back (m_subscribedTo s this) e)\<rparr>"

definition subscribeConstHandler :: "eid \<Rightarrow> hid \<Rightarrow> ('a, 'w, 'x) store \<Rightarrow> ('a, 'w, 'x) store" where
  "subscribeConstHandler this handler s =
     s\<lparr>m_handler := (m_handler s)(this := push_back (m_handler s this) handler)\<rparr>"

definition unsubscribeConstHandler :: "eid \<Rightarrow> hid \<Rightarrow> ('a, 'w, 'x) store \<Rightarrow> ('a, 'w, 'x) store" where
  "unsubscribeConstHandler this handler s =
     (case std_find (m_handler s this) handler of
        None \<Rightarrow> s
      | Some it \<Rightarrow> s\<lparr>m_handler := (m_handler s)(this := erase (m_handler s this) it)\<rparr>)"

text \<open>\<open>Handler::invoke\<close>: \<open>m_function(args...)\<close>.\<close>

definition Handler_invoke ::
  "hid \<Rightarrow> 'a \<Rightarrow> ('a, 'w, 'x) store \<Rightarrow> ('a, 'w, 'x) store \<times> 'x exn option" where
  "Handler_invoke this args s =
     (let s1 = s\<lparr>calls := calls s @ [(this, args)]\<rparr> in
      case m_function s this of
        None \<Rightarrow> (s1, Some bad_function_call)
      | Some f \<Rightarrow> (case f args (world s) of (w, r) \<Rightarrow> (s1\<lparr>world := w\<rparr>, r)))"

text \<open>
  \<open>Handler::reset\<close>. The loop runs over the Handler's own vector, which the calls in
  its body (they write to the Events' vectors) leave as it is.
\<close>

definition Handler_reset :: "hid \<Rightarrow> ('a, 'w, 'x) store \<Rightarrow> ('a, 'w, 'x) store" where
  "Handler_reset this s =
     (let s1 = fold (\<lambda>e. unsubscribeConstHandler e this) (m_subscribedTo s this) s
      in s1\<lparr>m_subscribedTo := (m_subscribedTo s1)(this := [])\<rparr>)"

text \<open>
  \<open>Handler::swap\<close>. \<open>this\<close> and \<open>other\<close> may be the same address; \<open>std::swap\<close> of a
  vector or a function object with itself changes nothing, which the double update
  below gives as well.
\<close>

definition Handler_swap :: "hid \<Rightarrow> hid \<Rightarrow> ('a, 'w, 'x) store \<Rightarrow> ('a, 'w, 'x) store" where
  "Handler_swap this other s =
     (let s1 = fold (\<lambda>e. unsubscribeConstHandler e this) (m_subscribedTo s this) s;
          s2 = fold (\<lambda>e. unsubscribeConstHandler e other) (m_subscribedTo s1 other) s1;
          s3 = s2\<lparr>m_subscribedTo := (m_subscribedTo s2)
                     (this := m_subscribedTo s2 other, other := m_subscribedTo s2 this),
                  m_function := (m_function s2)
                     (this := m_function s2 other, other := m_function s2 this)\<rparr>;
          s4 = fold (\<lambda>e. subscribeConstHandler e this) (m_subscribedTo s3 this) s3
      in fold (\<lambda>e. subscribeConstHandler e other) (m_subscribedTo s4 other) s4)"

text \<open>
  The move constructor: the members of the new object are default-initialised (an
  empty function object, an empty vector), then the body swaps with \<open>other\<close>.
\<close>

definition Handler_move_ctor :: "hid \<Rightarrow> hid \<Rightarrow> ('a, 'w, 'x) store \<Rightarrow> ('a, 'w, 'x) store" where
  "Handler_move_ctor this other s =
     Handler_swap this other
       (s\<lparr>m_function := (m_function s)(this := None),
          m_subscribedTo := (m_subscribedTo s)(this := [])\<rparr>)"

definition Handler_move_assign :: "hid \<Rightarrow> hid \<Rightarrow> ('a, 'w, 'x) store \<Rightarrow> ('a, 'w, 'x) store" where
  "Handler_move_assign this other s = Handler_swap this other s"

definition Handler_dtor :: "hid \<Rightarrow> ('a, 'w, 'x) store \<Rightarrow> ('a, 'w, 'x) store" where
  "Handler_dtor this s = Handler_reset this s"

section \<open>Event\<close>

text \<open>\<open>Event() = default\<close>: an empty vector of handlers.\<close>

definition Event_ctor :: "eid \<Rightarrow> ('a, 'w, 'x) store \<Rightarrow> ('a, 'w, 'x) store" where
  "Event_ctor this s = s\<lparr>m_handler := (m_handler s)(this := [])\<rparr>"

text \<open>
  \<open>Event::invoke\<close>: the range-for over \<open>m_handler\<close>; an exception leaves the loop at
  once and reaches the caller.
\<close>

fun invoke_loop ::
  "hid list \<Rightarrow> 'a \<Rightarrow> ('a, 'w, 'x) store \<Rightarrow> ('a, 'w, 'x) store \<times> 'x exn option" where
  "invoke_loop [] args s = (s, None)"
| "invoke_loop (h # hs) args s =
     (case Handler_invoke h args s of
        (s', Some x) \<Rightarrow> (s', Some x)
      | (s', None) \<Rightarrow> invoke_loop hs args s')"

definition Event_invoke ::
  "eid \<Rightarrow> 'a \<Rightarrow> ('a, 'w, 'x) store \<Rightarrow> ('a, 'w, 'x) store \<times> 'x exn option" where
  "Event_invoke this args s = invoke_loop (m_handler s this) args s"

definition Event_subscribe :: "eid \<Rightarrow> hid \<Rightarrow> ('a, 'w, 'x) store \<Rightarrow> ('a, 'w, 'x) store" where
  "Event_subscribe this handler s = addEvent handler this (subscribeConstHandler this handler s)"

definition Event_unsubscribe :: "eid \<Rightarrow> hid \<Rightarrow> ('a, 'w, 'x) store \<Rightarrow> ('a, 'w, 'x) store" where
  "Event_unsubscribe this handler s =
     (case std_find (m_handler s this) handler of
        None \<Rightarrow> s
      | Some it \<Rightarrow>
          (let s1 = removeEvent (m_handler s this ! it) this s
           in s1\<lparr>m_handler := (m_handler s1)(this := erase (m_handler s1 this) it)\<rparr>))"

definition Event_reset :: "eid \<Rightarrow> ('a, 'w, 'x) store \<Rightarrow> ('a, 'w, 'x) store" where
  "Event_reset this s =
     (let s1 = fold (\<lambda>h. removeEvent h this) (m_handler s this) s
      in s1\<lparr>m_handler := (m_handler s1)(this := [])\<rparr>)"

definition Event_swap :: "eid \<Rightarrow> eid \<Rightarrow> ('a, 'w, 'x) store \<Rightarrow> ('a, 'w, 'x) store" where
  "Event_swap this other s =
     (let s1 = fold (\<lambda>h. removeEvent h this) (m_handler s this) s;
          s2 = fold (\<lambda>h. removeEvent h other) (m_handler s1 other) s1;
          s3 = s2\<lparr>m_handler := (m_handler s2)
                     (this := m_handler s2 other, other := m_handler s2 this)\<rparr>;
          s4 = fold (\<lambda>h. addEvent h this) (m_handler s3 this) s3
      in fold (\<lambda>h. addEvent h other) (m_handler s4 other) s4)"

definition Event_move_ctor :: "eid \<Rightarrow> eid \<Rightarrow> ('a, 'w, 'x) store \<Rightarrow> ('a, 'w, 'x) store" where
  "Event_move_ctor this other s =
     Event_swap this other (s\<lparr>m_handler := (m_handler s)(this := [])\<rparr>)"

definition Event_move_assign :: "eid \<Rightarrow> eid \<Rightarrow> ('a, 'w, 'x) store \<Rightarrow> ('a, 'w, 'x) store" where
  "Event_move_assign this other s = Event_swap this other s"

definition Event_dtor :: "eid \<Rightarrow> ('a, 'w, 'x) store \<Rightarrow> ('a, 'w, 'x) store" where
  "Event_dtor this s = Event_reset this s"

section \<open>The mirrored-subscription invariant\<close>

definition mirrored :: "('a, 'w, 'x) store \<Rightarrow> bool" where
  "mirrored s \<longleftrightarrow>
     (\<forall>h e. count_list (m_subscribedTo s h) e = count_list (m_handler s e) h)"

text \<open>A store with no object in it, for building concrete stores.\<close>

definition empty_store :: "'w \<Rightarrow> ('a, 'w, 'x) store" where
  "empty_store w =
     \<lparr>m_function = (\<lambda>_. None), m_subscribedTo = (\<lambda>_. []), m_handler = (\<lambda>_. []),
      world = w, calls = []\<rparr>"

section \<open>Example stores\<close>

text \<open>
  Two reactions over a world that is one counter: the first adds its argument to the
  counter, as the reactions of the repository's tests do; the second throws.
\<close>

definition add_to_count :: "(int, int, nat) reaction" where
  "add_to_count i w = (w + i, None)"

definition throwing :: "(int, int, nat) reaction" where
  "throwing i w = (w, Some (thrown 42))"

text \<open>Event 10 with the Handlers 2, 3 and again 2 subscribed, in this order.\<close>

definition twice_store :: "(int, int, nat) store" where
  "twice_store =
     Event_subscribe 10 2 (Event_subscribe 10 3 (Event_subscribe 10 2
       (Handler_ctor 3 add_to_count (Handler_ctor 2 add_to_count
         (Event_ctor 10 (empty_store 0))))))"

text \<open>Event 10 and Handler 2, constructed and not subscribed.\<close>

definition fresh_store :: "(int, int, nat) store" where
  "fresh_store = Handler_ctor 2 add_to_count (Event_ctor 10 (empty_store 0))"

text \<open>Event 10 with the Handlers 2, 3 and 4 subscribed; the reaction of Handler 3 throws.\<close>

definition throw_store :: "(int, int, nat) store" where
  "throw_store =
     Event_subscribe 10 4 (Event_subscribe 10 3 (Event_subscribe 10 2
       (Handler_ctor 4 add_to_count (Handler_ctor 3 throwing (Handler_ctor 2 add_to_count
         (Event_ctor 10 (empty_store 0)))))))"

text \<open>Event 10 with Handler 2 subscribed once.\<close>

definition single_store :: "(int, int, nat) store" where
  "single_store = Event_subscribe 10 2 fresh_store"

text \<open>Event 10 with Handler 2 subscribed, and Event 20 with Handler 3 subscribed.\<close>

definition pairs_store :: "(int, int, nat) store" where
  "pairs_store =
     Event_subscribe 20 3 (Event_subscribe 10 2
       (Handler_ctor 3 throwing (Handler_ctor 2 add_to_count
         (Event_ctor 20 (Event_ctor 10 (empty_store 0))))))"

text \<open>
  The objects of the tests \<open>ManualSubsribeUnsubscribe\<close> and \<open>HandlerReset\<close>: the world
  is the pair of the counters \<open>h1Count\<close> and \<open>h2Count\<close>, Handler 2 is \<open>h1\<close>, Handler 3
  is \<open>h2\<close>, and the Events are 10 and 20.
\<close>

definition add_h1Count :: "(int, int \<times> int, nat) reaction" where
  "add_h1Count i w = ((fst w + i, snd w), None)"

definition add_h2Count :: "(int, int \<times> int, nat) reaction" where
  "add_h2Count i w = ((fst w, snd w + i), None)"

definition test_store :: "(int, int \<times> int, nat) store" where
  "test_store =
     Handler_ctor 3 add_h2Count (Handler_ctor 2 add_h1Count
       (Event_ctor 20 (Event_ctor 10 (empty_store (0, 0)))))"

section \<open>Vector primitives and list removal\<close>

lemma std_find_None: "std_find xs x = None \<longleftrightarrow> x \<notin> set xs"
  by (induction xs) auto

lemma std_find_Some:
  "std_find xs x = Some i \<Longrightarrow> i < length xs \<and> xs ! i = x \<and> x \<notin> set (take i xs)"
proof (induction xs arbitrary: i)
  case Nil
  then show ?case by simp
next
  case (Cons y ys)
  show ?case
  proof (cases "y = x")
    case True
    with Cons.prems show ?thesis by simp
  next
    case False
    with Cons.prems obtain j where j: "std_find ys x = Some j" "i = Suc j"
      by auto
    from Cons.IH [OF j(1)] False j(2) show ?thesis by simp
  qed
qed

lemma erase_std_find: "std_find xs x = Some i \<Longrightarrow> erase xs i = remove1 x xs"
proof (induction xs arbitrary: i)
  case Nil
  then show ?case by simp
next
  case (Cons y ys)
  show ?case
  proof (cases "y = x")
    case True
    with Cons.prems show ?thesis by (simp add: erase_def)
  next
    case False
    with Cons.prems obtain j where j: "std_find ys x = Some j" "i = Suc j"
      by auto
    from Cons.IH [OF j(1)] False j(2) show ?thesis by (simp add: erase_def)
  qed
qed

section \<open>The private operations as list operations\<close>

lemma unsubscribeConstHandler_eq:
  "unsubscribeConstHandler e h s = s\<lparr>m_handler := (m_handler s)(e := remove1 h (m_handler s e))\<rparr>"
  by (auto simp: unsubscribeConstHandler_def erase_std_find std_find_None remove1_idem
           split: option.splits)

lemma removeEvent_eq:
  "removeEvent h e s = s\<lparr>m_subscribedTo := (m_subscribedTo s)(h := remove1 e (m_subscribedTo s h))\<rparr>"
  by (auto simp: removeEvent_def erase_std_find std_find_None remove1_idem
           split: option.splits)

lemma subscribeConstHandler_eq:
  "subscribeConstHandler e h s = s\<lparr>m_handler := (m_handler s)(e := m_handler s e @ [h])\<rparr>"
  by (simp add: subscribeConstHandler_def push_back_def)

lemma addEvent_eq:
  "addEvent h e s = s\<lparr>m_subscribedTo := (m_subscribedTo s)(h := m_subscribedTo s h @ [e])\<rparr>"
  by (simp add: addEvent_def push_back_def)

lemma filter_remove1_neq: "filter (\<lambda>y. y \<noteq> x) (remove1 x xs) = filter (\<lambda>y. y \<noteq> x) xs"
  by (induction xs) auto

lemma count_list_remove1:
  "count_list (remove1 x xs) y = (if y = x then count_list xs x - 1 else count_list xs y)"
  by (induction xs) auto

lemma count_list_0_iff: "count_list xs x = 0 \<longleftrightarrow> x \<notin> set xs"
  by (induction xs) auto

lemma remove1_funpow_filter:
  "count_list xs x \<le> n \<Longrightarrow> (remove1 x ^^ n) xs = filter (\<lambda>y. y \<noteq> x) xs"
proof (induction n arbitrary: xs)
  case 0
  then have "x \<notin> set xs" by (simp add: count_list_0_iff)
  then have "filter (\<lambda>y. y \<noteq> x) xs = xs" by (induction xs) auto
  then show ?case by simp
next
  case (Suc n)
  have "count_list (remove1 x xs) x \<le> n"
    using Suc.prems by (simp add: count_list_remove1)
  from Suc.IH [OF this] show ?case
    by (simp add: funpow_swap1 filter_remove1_neq)
qed

lemma count_list_remove1_funpow:
  "count_list ((remove1 x ^^ n) xs) y = (if y = x then count_list xs x - n else count_list xs y)"
  by (induction n arbitrary: xs) (auto simp: funpow_swap1 count_list_remove1)

lemma fold_unsubscribeConstHandler:
  "fold (\<lambda>e. unsubscribeConstHandler e h) es s =
     s\<lparr>m_handler := (\<lambda>e. (remove1 h ^^ count_list es e) (m_handler s e))\<rparr>"
proof (induction es arbitrary: s)
  case Nil
  show ?case by simp
next
  case (Cons e es)
  show ?case
    unfolding fold_simps Cons.IH
    by (simp add: unsubscribeConstHandler_eq fun_eq_iff funpow_swap1)
qed

lemma fold_subscribeConstHandler:
  "fold (\<lambda>e. subscribeConstHandler e h) es s =
     s\<lparr>m_handler := (\<lambda>e. m_handler s e @ replicate (count_list es e) h)\<rparr>"
proof (induction es arbitrary: s)
  case Nil
  show ?case by simp
next
  case (Cons e es)
  show ?case
    unfolding fold_simps Cons.IH
    by (simp add: subscribeConstHandler_eq fun_eq_iff replicate_append_same)
qed

lemma fold_removeEvent:
  "fold (\<lambda>h. removeEvent h e) hs s =
     s\<lparr>m_subscribedTo := (\<lambda>h. (remove1 e ^^ count_list hs h) (m_subscribedTo s h))\<rparr>"
proof (induction hs arbitrary: s)
  case Nil
  show ?case by simp
next
  case (Cons h hs)
  show ?case
    unfolding fold_simps Cons.IH
    by (simp add: removeEvent_eq fun_eq_iff funpow_swap1)
qed

lemma fold_addEvent:
  "fold (\<lambda>h. addEvent h e) hs s =
     s\<lparr>m_subscribedTo := (\<lambda>h. m_subscribedTo s h @ replicate (count_list hs h) e)\<rparr>"
proof (induction hs arbitrary: s)
  case Nil
  show ?case by simp
next
  case (Cons h hs)
  show ?case
    unfolding fold_simps Cons.IH
    by (simp add: addEvent_eq fun_eq_iff replicate_append_same)
qed

section \<open>The public operations in closed form\<close>

lemma count_list_replicate:
  "count_list (replicate n x) y = (if x = y then n else 0)"
  by (induction n) auto

lemma Handler_swap_eq:
  "Handler_swap a b s =
     s\<lparr>m_function := (m_function s)(a := m_function s b, b := m_function s a),
       m_subscribedTo := (m_subscribedTo s)(a := m_subscribedTo s b, b := m_subscribedTo s a),
       m_handler := (\<lambda>e.
          (remove1 b ^^ count_list (m_subscribedTo s b) e)
            ((remove1 a ^^ count_list (m_subscribedTo s a) e) (m_handler s e))
          @ replicate (count_list (m_subscribedTo s b) e) a
          @ replicate (count_list (m_subscribedTo s a) e) b)\<rparr>"
  by (simp add: Handler_swap_def Let_def fold_unsubscribeConstHandler
        fold_subscribeConstHandler fun_eq_iff)

lemma Event_swap_eq:
  "Event_swap a b s =
     s\<lparr>m_handler := (m_handler s)(a := m_handler s b, b := m_handler s a),
       m_subscribedTo := (\<lambda>h.
          (remove1 b ^^ count_list (m_handler s b) h)
            ((remove1 a ^^ count_list (m_handler s a) h) (m_subscribedTo s h))
          @ replicate (count_list (m_handler s b) h) a
          @ replicate (count_list (m_handler s a) h) b)\<rparr>"
  by (simp add: Event_swap_def Let_def fold_removeEvent fold_addEvent fun_eq_iff)

lemma Handler_reset_eq:
  "Handler_reset h s =
     s\<lparr>m_handler := (\<lambda>e. (remove1 h ^^ count_list (m_subscribedTo s h) e) (m_handler s e)),
       m_subscribedTo := (m_subscribedTo s)(h := [])\<rparr>"
  by (simp add: Handler_reset_def Let_def fold_unsubscribeConstHandler)

lemma Event_reset_eq:
  "Event_reset e s =
     s\<lparr>m_subscribedTo := (\<lambda>h. (remove1 e ^^ count_list (m_handler s e) h) (m_subscribedTo s h)),
       m_handler := (m_handler s)(e := [])\<rparr>"
  by (simp add: Event_reset_def Let_def fold_removeEvent)

lemma Event_subscribe_eq:
  "Event_subscribe e h s =
     s\<lparr>m_handler := (m_handler s)(e := m_handler s e @ [h]),
       m_subscribedTo := (m_subscribedTo s)(h := m_subscribedTo s h @ [e])\<rparr>"
  by (simp add: Event_subscribe_def addEvent_eq subscribeConstHandler_eq)

lemma Event_unsubscribe_eq:
  "Event_unsubscribe e h s =
     (if h \<in> set (m_handler s e)
      then s\<lparr>m_subscribedTo := (m_subscribedTo s)(h := remove1 e (m_subscribedTo s h)),
             m_handler := (m_handler s)(e := remove1 h (m_handler s e))\<rparr>
      else s)"
proof (cases "std_find (m_handler s e) h")
  case None
  then have "h \<notin> set (m_handler s e)"
    by (simp add: std_find_None)
  with None show ?thesis
    by (simp add: Event_unsubscribe_def)
next
  case (Some it)
  from std_find_Some [OF Some] have "m_handler s e ! it = h" "h \<in> set (m_handler s e)"
    by (auto simp: in_set_conv_nth)
  with Some show ?thesis
    by (simp add: Event_unsubscribe_def Let_def removeEvent_eq erase_std_find)
qed

lemma mirrored_Event_subscribe: "mirrored s \<Longrightarrow> mirrored (Event_subscribe e h s)"
  by (simp add: mirrored_def Event_subscribe_eq)

lemma mirrored_Event_unsubscribe: "mirrored s \<Longrightarrow> mirrored (Event_unsubscribe e h s)"
  by (auto simp: mirrored_def Event_unsubscribe_eq count_list_remove1)

lemma mirrored_Handler_reset: "mirrored s \<Longrightarrow> mirrored (Handler_reset h s)"
  by (auto simp: mirrored_def Handler_reset_eq count_list_remove1_funpow)

lemma mirrored_Event_reset: "mirrored s \<Longrightarrow> mirrored (Event_reset e s)"
  by (auto simp: mirrored_def Event_reset_eq count_list_remove1_funpow)

lemma mirrored_Handler_swap: "mirrored s \<Longrightarrow> a \<noteq> b \<Longrightarrow> mirrored (Handler_swap a b s)"
  by (auto simp: mirrored_def Handler_swap_eq count_list_remove1_funpow count_list_replicate)

lemma mirrored_Event_swap: "mirrored s \<Longrightarrow> a \<noteq> b \<Longrightarrow> mirrored (Event_swap a b s)"
  by (auto simp: mirrored_def Event_swap_eq count_list_remove1_funpow count_list_replicate)

lemma mirrored_empty_store: "mirrored (empty_store w)"
  by (simp add: mirrored_def empty_store_def)

lemma mirrored_Handler_ctor:
  "mirrored s \<Longrightarrow> \<forall>e. h \<notin> set (m_handler s e) \<Longrightarrow> mirrored (Handler_ctor h f s)"
  by (auto simp: mirrored_def Handler_ctor_def count_list_0_iff)

lemma mirrored_Event_ctor:
  assumes "mirrored s" and fresh: "\<forall>h. e \<notin> set (m_subscribedTo s h)"
  shows "mirrored (Event_ctor e s)"
proof -
  from fresh have "count_list (m_subscribedTo s h) e = 0" for h
    using count_list_0_iff [of "m_subscribedTo s h" e] by blast
  with assms(1) show ?thesis
    by (simp add: mirrored_def Event_ctor_def)
qed

section \<open>The example stores, evaluated\<close>

lemma twice_store_fields:
  "m_handler twice_store 10 = [2, 3, 2]"
  "m_subscribedTo twice_store 2 = [10, 10]"
  "m_subscribedTo twice_store 3 = [10]"
  by (simp_all add: twice_store_def Event_subscribe_eq Handler_ctor_def Event_ctor_def
        empty_store_def)

lemma twice_store_more:
  "m_function twice_store 2 = Some add_to_count"
  "m_function twice_store 3 = Some add_to_count"
  "world twice_store = 0"
  "calls twice_store = []"
  by (simp_all add: twice_store_def Event_subscribe_eq Handler_ctor_def Event_ctor_def
        empty_store_def)

lemma fresh_store_fields:
  "m_handler fresh_store 10 = []"
  "m_subscribedTo fresh_store 2 = []"
  "m_function fresh_store 2 = Some add_to_count"
  "world fresh_store = 0"
  "calls fresh_store = []"
  by (simp_all add: fresh_store_def Handler_ctor_def Event_ctor_def empty_store_def)

lemma throw_store_fields:
  "m_handler throw_store 10 = [2, 3, 4]"
  "m_function throw_store 2 = Some add_to_count"
  "m_function throw_store 3 = Some throwing"
  "m_function throw_store 4 = Some add_to_count"
  "world throw_store = 0"
  "calls throw_store = []"
  by (simp_all add: throw_store_def Event_subscribe_eq Handler_ctor_def Event_ctor_def
        empty_store_def)

lemma mirrored_fresh_store: "mirrored fresh_store"
  unfolding fresh_store_def
  by (intro mirrored_Handler_ctor mirrored_Event_ctor mirrored_empty_store)
    (simp_all add: Event_ctor_def empty_store_def)

lemma mirrored_twice_store: "mirrored twice_store"
  unfolding twice_store_def
  by (intro mirrored_Event_subscribe mirrored_Handler_ctor mirrored_Event_ctor
        mirrored_empty_store)
    (simp_all add: Handler_ctor_def Event_ctor_def empty_store_def)

lemma mirrored_throw_store: "mirrored throw_store"
  unfolding throw_store_def
  by (intro mirrored_Event_subscribe mirrored_Handler_ctor mirrored_Event_ctor
        mirrored_empty_store)
    (simp_all add: Handler_ctor_def Event_ctor_def empty_store_def)

section \<open>Invocation\<close>

lemma Handler_invoke_fields:
  "m_handler (fst (Handler_invoke h a s)) = m_handler s"
  "m_subscribedTo (fst (Handler_invoke h a s)) = m_subscribedTo s"
  "m_function (fst (Handler_invoke h a s)) = m_function s"
  "calls (fst (Handler_invoke h a s)) = calls s @ [(h, a)]"
  by (simp_all add: Handler_invoke_def Let_def split: option.splits prod.splits)

lemma invoke_loop_fields:
  "m_handler (fst (invoke_loop hs a s)) = m_handler s \<and>
   m_subscribedTo (fst (invoke_loop hs a s)) = m_subscribedTo s \<and>
   m_function (fst (invoke_loop hs a s)) = m_function s"
proof (induction hs arbitrary: s)
  case Nil
  show ?case by simp
next
  case (Cons h hs)
  obtain s' r where step: "Handler_invoke h a s = (s', r)"
    by (cases "Handler_invoke h a s")
  have keep: "m_handler s' = m_handler s" "m_subscribedTo s' = m_subscribedTo s"
    "m_function s' = m_function s"
    using Handler_invoke_fields [of h a s] step by simp_all
  show ?case
  proof (cases r)
    case None
    with step keep Cons.IH [of s'] show ?thesis by simp
  next
    case (Some x)
    with step keep show ?thesis by simp
  qed
qed

lemma invoke_loop_append:
  "invoke_loop (pre @ post) a s =
     (case invoke_loop pre a s of
        (s1, Some x) \<Rightarrow> (s1, Some x)
      | (s1, None) \<Rightarrow> invoke_loop post a s1)"
  by (induction pre arbitrary: s) (auto split: prod.splits option.splits)

lemma invoke_loop_calls:
  "invoke_loop hs a s = (s', None) \<Longrightarrow> calls s' = calls s @ map (\<lambda>h. (h, a)) hs"
proof (induction hs arbitrary: s)
  case Nil
  then show ?case by simp
next
  case (Cons h hs)
  obtain s1 r where step: "Handler_invoke h a s = (s1, r)"
    by (cases "Handler_invoke h a s")
  with Cons.prems have r: "r = None" and rest: "invoke_loop hs a s1 = (s', None)"
    by (auto split: option.splits)
  have "calls s1 = calls s @ [(h, a)]"
    using Handler_invoke_fields(4) [of h a s] step by simp
  with Cons.IH [OF rest] show ?case by simp
qed


lemma count_list_Event_unsubscribe:
  "count_list (m_handler (Event_unsubscribe e h s) e) k =
     (if k = h then count_list (m_handler s e) h - 1 else count_list (m_handler s e) k)"
  by (auto simp: Event_unsubscribe_eq count_list_remove1 count_list_0_iff)

section \<open>The repository's tests, replayed\<close>

text \<open>
  \<open>ManualSubsribeUnsubscribe\<close>: the counters after each \<open>invoke\<close> of the test are
  (0, 0), (5, 0), (7, 2), (7, 3) and, after the second \<open>unsubscribe\<close> of \<open>h1\<close>, (7, 4).
\<close>

lemma test_ManualSubsribeUnsubscribe:
  "world (fst (Event_invoke 10 5 test_store)) = (0, 0)"
  "world (fst (Event_invoke 10 5 (Event_subscribe 10 2 test_store))) = (5, 0)"
  "world (fst (Event_invoke 10 2 (Event_subscribe 10 3
     (fst (Event_invoke 10 5 (Event_subscribe 10 2 test_store)))))) = (7, 2)"
  "world (fst (Event_invoke 10 1 (Event_unsubscribe 10 2
     (fst (Event_invoke 10 2 (Event_subscribe 10 3
       (fst (Event_invoke 10 5 (Event_subscribe 10 2 test_store))))))))) = (7, 3)"
  "world (fst (Event_invoke 10 1 (Event_unsubscribe 10 2
     (fst (Event_invoke 10 1 (Event_unsubscribe 10 2
       (fst (Event_invoke 10 2 (Event_subscribe 10 3
         (fst (Event_invoke 10 5 (Event_subscribe 10 2 test_store)))))))))))) = (7, 4)"
  by (simp_all add: Event_invoke_def Handler_invoke_def Let_def add_h1Count_def
        add_h2Count_def Event_subscribe_eq Event_unsubscribe_eq test_store_def
        Handler_ctor_def Event_ctor_def empty_store_def)

text \<open>
  \<open>HandlerReset\<close>: \<open>h1\<close> is subscribed to both Events and counts to 2; after
  \<open>h1.reset()\<close> the two Events are invoked with 10 and the counter stays at 2.
\<close>

lemma test_HandlerReset:
  "world (fst (Event_invoke 20 1 (Event_subscribe 20 2
     (fst (Event_invoke 10 1 (Event_subscribe 10 2 test_store)))))) = (2, 0)"
  "world (fst (Event_invoke 20 10 (fst (Event_invoke 10 10 (Handler_reset 2
     (fst (Event_invoke 20 1 (Event_subscribe 20 2
       (fst (Event_invoke 10 1 (Event_subscribe 10 2 test_store))))))))))) = (2, 0)"
  by (simp_all add: Event_invoke_def Handler_invoke_def Let_def add_h1Count_def
        Event_subscribe_eq Handler_reset_eq test_store_def
        Handler_ctor_def Event_ctor_def empty_store_def)

section \<open>Unsubscribing\<close>

text \<open>
  Claim C3. \<open>Event::unsubscribe\<close> erases the first occurrence of the Handler from the
  Event's \<open>m_handler\<close> and the first occurrence of the Event from the Handler's
  \<open>m_subscribedTo\<close>, and nothing else. When the Handler is not in the Event's vector
  the store is returned as it is; in particular a second unsubscribe of a Handler that
  was subscribed at most once changes nothing.
\<close>

theorem Event_unsubscribe_first_occurrence:
  "(h \<in> set (m_handler s e) \<longrightarrow>
      Event_unsubscribe e h s =
        s\<lparr>m_subscribedTo := (m_subscribedTo s)(h := remove1 e (m_subscribedTo s h)),
          m_handler := (m_handler s)(e := remove1 h (m_handler s e))\<rparr> \<and>
      (\<exists>pre post. m_handler s e = pre @ h # post \<and> h \<notin> set pre \<and>
         m_handler (Event_unsubscribe e h s) e = pre @ post)) \<and>
   (h \<notin> set (m_handler s e) \<longrightarrow> Event_unsubscribe e h s = s) \<and>
   (count_list (m_handler s e) h \<le> 1 \<longrightarrow>
      Event_unsubscribe e h (Event_unsubscribe e h s) = Event_unsubscribe e h s)"
proof (intro conjI impI)
  assume "h \<in> set (m_handler s e)"
  then show "Event_unsubscribe e h s =
        s\<lparr>m_subscribedTo := (m_subscribedTo s)(h := remove1 e (m_subscribedTo s h)),
          m_handler := (m_handler s)(e := remove1 h (m_handler s e))\<rparr>"
    by (simp add: Event_unsubscribe_eq)
next
  assume mem: "h \<in> set (m_handler s e)"
  then obtain pre post where split: "m_handler s e = pre @ h # post" "h \<notin> set pre"
    by (auto dest: split_list_first)
  then have "remove1 h (m_handler s e) = pre @ post"
    by (simp add: remove1_append)
  with mem split show "\<exists>pre post. m_handler s e = pre @ h # post \<and> h \<notin> set pre \<and>
         m_handler (Event_unsubscribe e h s) e = pre @ post"
    by (auto simp: Event_unsubscribe_eq)
next
  assume "h \<notin> set (m_handler s e)"
  then show "Event_unsubscribe e h s = s"
    by (simp add: Event_unsubscribe_eq)
next
  assume once: "count_list (m_handler s e) h \<le> 1"
  have "h \<notin> set (m_handler (Event_unsubscribe e h s) e)"
  proof (cases "h \<in> set (m_handler s e)")
    case True
    have "count_list (remove1 h (m_handler s e)) h = 0"
      using once by (simp add: count_list_remove1)
    then have "h \<notin> set (remove1 h (m_handler s e))"
      using count_list_0_iff [of "remove1 h (m_handler s e)" h] by blast
    with True show ?thesis
      by (simp add: Event_unsubscribe_eq)
  next
    case False
    then show ?thesis by (simp add: Event_unsubscribe_eq)
  qed
  then show "Event_unsubscribe e h (Event_unsubscribe e h s) = Event_unsubscribe e h s"
    by (simp add: Event_unsubscribe_eq [of e h "Event_unsubscribe e h s"])
qed

theorem Event_unsubscribe_first_occurrence_witness:
  "2 \<in> set (m_handler twice_store 10) \<and>
   m_handler (Event_unsubscribe 10 2 twice_store) 10 = [3, 2] \<and>
   m_subscribedTo (Event_unsubscribe 10 2 twice_store) 2 = [10] \<and>
   4 \<notin> set (m_handler twice_store 10) \<and>
   Event_unsubscribe 10 4 twice_store = twice_store \<and>
   count_list (m_handler twice_store 10) 3 \<le> 1 \<and>
   Event_unsubscribe 10 3 (Event_unsubscribe 10 3 twice_store) =
     Event_unsubscribe 10 3 twice_store"
proof -
  have present: "2 \<in> set (m_handler twice_store 10)"
    and absent: "4 \<notin> set (m_handler twice_store 10)"
    and once: "count_list (m_handler twice_store 10) 3 \<le> 1"
    by (simp_all add: twice_store_fields)
  from present Event_unsubscribe_first_occurrence [of 2 twice_store 10]
  have "Event_unsubscribe 10 2 twice_store =
        twice_store\<lparr>m_subscribedTo :=
            (m_subscribedTo twice_store)(2 := remove1 10 (m_subscribedTo twice_store 2)),
          m_handler := (m_handler twice_store)(10 := remove1 2 (m_handler twice_store 10))\<rparr>"
    by blast
  then have removed: "m_handler (Event_unsubscribe 10 2 twice_store) 10 = [3, 2]"
    "m_subscribedTo (Event_unsubscribe 10 2 twice_store) 2 = [10]"
    by (simp_all add: twice_store_fields)
  from absent Event_unsubscribe_first_occurrence [of 4 twice_store 10]
  have noop: "Event_unsubscribe 10 4 twice_store = twice_store"
    by blast
  from once Event_unsubscribe_first_occurrence [of 3 twice_store 10]
  have again: "Event_unsubscribe 10 3 (Event_unsubscribe 10 3 twice_store) =
     Event_unsubscribe 10 3 twice_store"
    by blast
  from present absent once removed noop again show ?thesis
    by blast
qed

section \<open>Invocation order\<close>

text \<open>
  Claim C4. \<open>Event::invoke\<close> enters \<open>Handler::invoke\<close> once for each entry of
  \<open>m_handler\<close>, front to back, with the arguments it was given: when no reaction throws,
  the log of calls grows by exactly the Event's vector. Unsubscribing a Handler and
  subscribing it again erases its first entry and appends a new one, so it is the last
  to be invoked.
\<close>

theorem Event_invoke_in_registration_order:
  "(Event_invoke e args s = (s', None) \<longrightarrow>
      calls s' = calls s @ map (\<lambda>h. (h, args)) (m_handler s e)) \<and>
   m_handler (Event_subscribe e h (Event_unsubscribe e h s)) e = remove1 h (m_handler s e) @ [h] \<and>
   last (m_handler (Event_subscribe e h (Event_unsubscribe e h s)) e) = h"
proof -
  have order: "Event_invoke e args s = (s', None) \<longrightarrow>
      calls s' = calls s @ map (\<lambda>h. (h, args)) (m_handler s e)"
    by (simp add: Event_invoke_def invoke_loop_calls)
  have moved: "m_handler (Event_subscribe e h (Event_unsubscribe e h s)) e =
      remove1 h (m_handler s e) @ [h]"
    by (simp add: Event_subscribe_eq Event_unsubscribe_eq remove1_idem)
  from order moved show ?thesis by simp
qed

theorem Event_invoke_in_registration_order_witness:
  "Event_invoke 10 5 twice_store = (fst (Event_invoke 10 5 twice_store), None) \<and>
   calls (fst (Event_invoke 10 5 twice_store)) = [(2, 5), (3, 5), (2, 5)] \<and>
   world (fst (Event_invoke 10 5 twice_store)) = 15 \<and>
   m_handler (Event_subscribe 10 3 (Event_unsubscribe 10 3 twice_store)) 10 = [2, 2, 3]"
proof -
  have ret: "snd (Event_invoke 10 5 twice_store) = None"
    and w: "world (fst (Event_invoke 10 5 twice_store)) = 15"
    by (simp_all add: Event_invoke_def Handler_invoke_def Let_def add_to_count_def
          twice_store_fields twice_store_more)
  from ret have run: "Event_invoke 10 5 twice_store = (fst (Event_invoke 10 5 twice_store), None)"
    by (simp add: prod_eq_iff)
  note inst = Event_invoke_in_registration_order
    [of 10 5 twice_store "fst (Event_invoke 10 5 twice_store)" 3]
  from inst run have "calls (fst (Event_invoke 10 5 twice_store)) =
      calls twice_store @ map (\<lambda>h. (h, 5)) (m_handler twice_store 10)"
    by blast
  then have log: "calls (fst (Event_invoke 10 5 twice_store)) = [(2, 5), (3, 5), (2, 5)]"
    by (simp add: twice_store_fields twice_store_more)
  from inst have "m_handler (Event_subscribe 10 3 (Event_unsubscribe 10 3 twice_store)) 10 =
      remove1 3 (m_handler twice_store 10) @ [3]"
    by blast
  then have moved: "m_handler (Event_subscribe 10 3 (Event_unsubscribe 10 3 twice_store)) 10 =
      [2, 2, 3]"
    by (simp add: twice_store_fields)
  from run log w moved show ?thesis by blast
qed

section \<open>Repeated subscription\<close>

lemma count_list_subscribedTo_Event_unsubscribe:
  "count_list (m_subscribedTo (Event_unsubscribe e h s) k) d =
     (if k = h \<and> d = e \<and> h \<in> set (m_handler s e)
      then count_list (m_subscribedTo s h) e - 1 else count_list (m_subscribedTo s k) d)"
  by (auto simp: Event_unsubscribe_eq count_list_remove1)

lemma mem_count_list_Suc: "count_list xs x = Suc n \<Longrightarrow> x \<in> set xs"
  using count_list_0_iff [of xs x] by auto

text \<open>
  Claim C6. \<open>Event::subscribe\<close> is total and appends on both sides. Subscribing the same
  Handler twice gives two entries in the Event's \<open>m_handler\<close> and two in the Handler's
  \<open>m_subscribedTo\<close>; one \<open>invoke\<close> then enters that Handler twice. One \<open>unsubscribe\<close>
  takes away exactly one entry of that Handler from the Event and, when the Handler was
  in the Event's vector, exactly one entry of that Event from the Handler, and no entry
  of any other Handler or Event on either side. So after two subscriptions one
  unsubscribe leaves one registration on both sides and a second one removes it on both
  sides.
\<close>

theorem Event_subscribe_repeated:
  "Event_subscribe e h s =
     s\<lparr>m_handler := (m_handler s)(e := m_handler s e @ [h]),
       m_subscribedTo := (m_subscribedTo s)(h := m_subscribedTo s h @ [e])\<rparr> \<and>
   m_handler (Event_subscribe e h (Event_subscribe e h s)) e = m_handler s e @ [h, h] \<and>
   m_subscribedTo (Event_subscribe e h (Event_subscribe e h s)) h = m_subscribedTo s h @ [e, e] \<and>
   (Event_invoke e args (Event_subscribe e h (Event_subscribe e h s)) = (s', None) \<longrightarrow>
      calls s' = calls s @ map (\<lambda>k. (k, args)) (m_handler s e) @ [(h, args), (h, args)]) \<and>
   count_list (m_handler (Event_unsubscribe e h s) e) k =
     (if k = h then count_list (m_handler s e) h - 1 else count_list (m_handler s e) k) \<and>
   count_list (m_handler
       (Event_unsubscribe e h (Event_subscribe e h (Event_subscribe e h s))) e) h =
     count_list (m_handler s e) h + 1 \<and>
   count_list (m_handler (Event_unsubscribe e h
       (Event_unsubscribe e h (Event_subscribe e h (Event_subscribe e h s)))) e) h =
     count_list (m_handler s e) h \<and>
   Event_unsubscribe e h s =
     (if h \<in> set (m_handler s e)
      then s\<lparr>m_subscribedTo := (m_subscribedTo s)(h := remove1 e (m_subscribedTo s h)),
             m_handler := (m_handler s)(e := remove1 h (m_handler s e))\<rparr>
      else s) \<and>
   count_list (m_subscribedTo (Event_unsubscribe e h s) k) d =
     (if k = h \<and> d = e \<and> h \<in> set (m_handler s e)
      then count_list (m_subscribedTo s h) e - 1 else count_list (m_subscribedTo s k) d) \<and>
   Event_unsubscribe e h (Event_subscribe e h (Event_subscribe e h s)) =
     (Event_subscribe e h (Event_subscribe e h s))
       \<lparr>m_subscribedTo := (m_subscribedTo (Event_subscribe e h (Event_subscribe e h s)))
            (h := remove1 e (m_subscribedTo s h @ [e, e])),
        m_handler := (m_handler (Event_subscribe e h (Event_subscribe e h s)))
            (e := remove1 h (m_handler s e @ [h, h]))\<rparr> \<and>
   count_list (m_subscribedTo
       (Event_unsubscribe e h (Event_subscribe e h (Event_subscribe e h s))) h) e =
     count_list (m_subscribedTo s h) e + 1 \<and>
   count_list (m_subscribedTo (Event_unsubscribe e h
       (Event_unsubscribe e h (Event_subscribe e h (Event_subscribe e h s)))) h) e =
     count_list (m_subscribedTo s h) e"
proof -
  let ?d = "Event_subscribe e h (Event_subscribe e h s)"
  let ?u = "Event_unsubscribe e h ?d"
  have appended: "Event_subscribe e h s =
     s\<lparr>m_handler := (m_handler s)(e := m_handler s e @ [h]),
       m_subscribedTo := (m_subscribedTo s)(h := m_subscribedTo s h @ [e])\<rparr>"
    by (rule Event_subscribe_eq)
  have two: "m_handler ?d e = m_handler s e @ [h, h]"
    "m_subscribedTo ?d h = m_subscribedTo s h @ [e, e]"
    by (simp_all add: Event_subscribe_eq)
  have log: "Event_invoke e args ?d = (s', None) \<longrightarrow>
      calls s' = calls s @ map (\<lambda>k. (k, args)) (m_handler s e) @ [(h, args), (h, args)]"
  proof
    assume "Event_invoke e args ?d = (s', None)"
    then have "calls s' = calls ?d @ map (\<lambda>k. (k, args)) (m_handler ?d e)"
      by (simp add: Event_invoke_def invoke_loop_calls)
    moreover have "calls ?d = calls s"
      by (simp add: Event_subscribe_eq)
    ultimately show "calls s' =
        calls s @ map (\<lambda>k. (k, args)) (m_handler s e) @ [(h, args), (h, args)]"
      using two(1) by simp
  qed
  note one = count_list_Event_unsubscribe
  note sub = count_list_subscribedTo_Event_unsubscribe
  have first: "count_list (m_handler ?u e) h = count_list (m_handler s e) h + 1"
    by (simp add: one two(1))
  have second: "count_list (m_handler (Event_unsubscribe e h ?u) e) h =
      count_list (m_handler s e) h"
    by (simp add: one two(1))
  have present: "h \<in> set (m_handler ?d e)"
    by (simp add: two(1))
  have still: "h \<in> set (m_handler ?u e)"
    using first by (intro mem_count_list_Suc [of _ _ "count_list (m_handler s e) h"]) simp
  have whole: "?u = ?d\<lparr>m_subscribedTo := (m_subscribedTo ?d)
            (h := remove1 e (m_subscribedTo s h @ [e, e])),
        m_handler := (m_handler ?d)(e := remove1 h (m_handler s e @ [h, h]))\<rparr>"
    using present by (simp only: Event_unsubscribe_eq [of e h ?d] two if_True)
  have hfirst: "count_list (m_subscribedTo ?u h) e = count_list (m_subscribedTo s h) e + 1"
    using present by (simp add: sub two(2))
  have hsecond: "count_list (m_subscribedTo (Event_unsubscribe e h ?u) h) e =
      count_list (m_subscribedTo s h) e"
    using still hfirst by (simp add: sub [of e h ?u])
  from appended two log one [of e h s k] first second Event_unsubscribe_eq [of e h s]
    sub [of e h s k d] whole hfirst hsecond
  show ?thesis
    by (intro conjI) assumption+
qed

theorem Event_subscribe_repeated_witness:
  "Event_invoke 10 5 (Event_subscribe 10 2 (Event_subscribe 10 2 fresh_store)) =
     (fst (Event_invoke 10 5 (Event_subscribe 10 2 (Event_subscribe 10 2 fresh_store))), None) \<and>
   calls (fst (Event_invoke 10 5 (Event_subscribe 10 2 (Event_subscribe 10 2 fresh_store)))) =
     [(2, 5), (2, 5)] \<and>
   world (fst (Event_invoke 10 5 (Event_subscribe 10 2 (Event_subscribe 10 2 fresh_store)))) = 10 \<and>
   m_handler (Event_subscribe 10 2 (Event_subscribe 10 2 fresh_store)) 10 = [2, 2] \<and>
   count_list (m_handler (Event_unsubscribe 10 2
       (Event_subscribe 10 2 (Event_subscribe 10 2 fresh_store))) 10) 2 = 1 \<and>
   m_handler (Event_unsubscribe 10 2
       (Event_subscribe 10 2 (Event_subscribe 10 2 fresh_store))) 10 = [2] \<and>
   m_subscribedTo (Event_unsubscribe 10 2
       (Event_subscribe 10 2 (Event_subscribe 10 2 fresh_store))) 2 = [10] \<and>
   count_list (m_handler (Event_unsubscribe 10 2 (Event_unsubscribe 10 2
       (Event_subscribe 10 2 (Event_subscribe 10 2 fresh_store)))) 10) 2 = 0 \<and>
   count_list (m_subscribedTo (Event_unsubscribe 10 2 (Event_unsubscribe 10 2
       (Event_subscribe 10 2 (Event_subscribe 10 2 fresh_store)))) 2) 10 = 0"
proof -
  let ?d = "Event_subscribe 10 2 (Event_subscribe 10 2 fresh_store)"
  let ?u = "Event_unsubscribe 10 2 ?d"
  have d: "m_handler ?d 10 = [2, 2]" "m_function ?d 2 = Some add_to_count"
    "world ?d = 0" "calls ?d = []"
    by (simp_all add: Event_subscribe_eq fresh_store_fields)
  have ret: "snd (Event_invoke 10 5 ?d) = None"
    and w: "world (fst (Event_invoke 10 5 ?d)) = 10"
    by (simp_all add: Event_invoke_def Handler_invoke_def Let_def add_to_count_def d)
  from ret have run: "Event_invoke 10 5 ?d = (fst (Event_invoke 10 5 ?d), None)"
    by (simp add: prod_eq_iff)
  note inst = Event_subscribe_repeated
    [of 10 2 fresh_store 5 "fst (Event_invoke 10 5 ?d)" 2 10]
  from inst run have "calls (fst (Event_invoke 10 5 ?d)) =
      calls fresh_store @ map (\<lambda>k. (k, 5)) (m_handler fresh_store 10) @ [(2, 5), (2, 5)]"
    by blast
  then have log: "calls (fst (Event_invoke 10 5 ?d)) = [(2, 5), (2, 5)]"
    by (simp add: fresh_store_fields)
  from inst have "count_list (m_handler ?u 10) 2 = count_list (m_handler fresh_store 10) 2 + 1"
    by blast
  then have left: "count_list (m_handler ?u 10) 2 = 1"
    by (simp add: fresh_store_fields)
  from inst have "?u = ?d\<lparr>m_subscribedTo := (m_subscribedTo ?d)
            (2 := remove1 10 (m_subscribedTo fresh_store 2 @ [10, 10])),
        m_handler := (m_handler ?d)(10 := remove1 2 (m_handler fresh_store 10 @ [2, 2]))\<rparr>"
    by blast
  then have "m_handler ?u 10 = remove1 2 (m_handler fresh_store 10 @ [2, 2])"
    "m_subscribedTo ?u 2 = remove1 10 (m_subscribedTo fresh_store 2 @ [10, 10])"
    by simp_all
  then have one: "m_handler ?u 10 = [2]" "m_subscribedTo ?u 2 = [10]"
    by (simp_all add: fresh_store_fields)
  from inst have "count_list (m_handler (Event_unsubscribe 10 2 ?u) 10) 2 =
      count_list (m_handler fresh_store 10) 2"
    "count_list (m_subscribedTo (Event_unsubscribe 10 2 ?u) 2) 10 =
      count_list (m_subscribedTo fresh_store 2) 10"
    by blast+
  then have none: "count_list (m_handler (Event_unsubscribe 10 2 ?u) 10) 2 = 0"
    "count_list (m_subscribedTo (Event_unsubscribe 10 2 ?u) 2) 10 = 0"
    by (simp_all add: fresh_store_fields)
  from run log w d(1) left one none show ?thesis
    by (intro conjI) assumption+
qed

section \<open>Exceptions during invocation\<close>

text \<open>
  Claim C7. Let the Handlers before \<open>h\<close> in the Event's vector return normally and let
  the reaction of \<open>h\<close> throw \<open>x\<close>. Then \<open>Event::invoke\<close> ends with exactly \<open>x\<close>, the
  Handlers after \<open>h\<close> are not entered and \<open>h\<close> is entered once. Whatever happens,
  \<open>Event::invoke\<close> leaves \<open>m_handler\<close>, \<open>m_subscribedTo\<close> and \<open>m_function\<close> of every
  object as they were.
\<close>

theorem Event_invoke_exception_propagates:
  "(m_handler s e = pre @ h # post \<and> invoke_loop pre args s = (s1, None) \<and>
    m_function s h = Some f \<and> f args (world s1) = (w, Some x) \<longrightarrow>
      Event_invoke e args s = (s1\<lparr>calls := calls s1 @ [(h, args)], world := w\<rparr>, Some x) \<and>
      calls (fst (Event_invoke e args s)) = calls s @ map (\<lambda>k. (k, args)) pre @ [(h, args)]) \<and>
   m_handler (fst (Event_invoke e args s)) = m_handler s \<and>
   m_subscribedTo (fst (Event_invoke e args s)) = m_subscribedTo s \<and>
   m_function (fst (Event_invoke e args s)) = m_function s"
proof -
  have raised: "Event_invoke e args s =
        (s1\<lparr>calls := calls s1 @ [(h, args)], world := w\<rparr>, Some x) \<and>
      calls (fst (Event_invoke e args s)) = calls s @ map (\<lambda>k. (k, args)) pre @ [(h, args)]"
    if list: "m_handler s e = pre @ h # post"
      and before: "invoke_loop pre args s = (s1, None)"
      and f: "m_function s h = Some f"
      and throws: "f args (world s1) = (w, Some x)"
  proof -
    have "m_function s1 = m_function s"
      using invoke_loop_fields [of pre args s] before by simp
    with f throws have "Handler_invoke h args s1 =
        (s1\<lparr>calls := calls s1 @ [(h, args)], world := w\<rparr>, Some x)"
      by (simp add: Handler_invoke_def Let_def)
    with list before have run: "Event_invoke e args s =
        (s1\<lparr>calls := calls s1 @ [(h, args)], world := w\<rparr>, Some x)"
      by (simp add: Event_invoke_def invoke_loop_append)
    moreover have "calls s1 = calls s @ map (\<lambda>k. (k, args)) pre"
      using before by (rule invoke_loop_calls)
    ultimately show ?thesis by simp
  qed
  moreover have "m_handler (fst (Event_invoke e args s)) = m_handler s"
    "m_subscribedTo (fst (Event_invoke e args s)) = m_subscribedTo s"
    "m_function (fst (Event_invoke e args s)) = m_function s"
    using invoke_loop_fields [of "m_handler s e" args s] by (simp_all add: Event_invoke_def)
  ultimately show ?thesis by blast
qed

theorem Event_invoke_exception_propagates_witness:
  "m_handler throw_store 10 = [2] @ 3 # [4] \<and>
   snd (invoke_loop [2] 5 throw_store) = None \<and>
   m_function throw_store 3 = Some throwing \<and>
   throwing 5 (world (fst (invoke_loop [2] 5 throw_store))) = (5, Some (thrown 42)) \<and>
   snd (Event_invoke 10 5 throw_store) = Some (thrown 42) \<and>
   calls (fst (Event_invoke 10 5 throw_store)) = [(2, 5), (3, 5)] \<and>
   world (fst (Event_invoke 10 5 throw_store)) = 5 \<and>
   m_handler (fst (Event_invoke 10 5 throw_store)) = m_handler throw_store"
proof -
  let ?s1 = "fst (invoke_loop [2] 5 throw_store)"
  have list: "m_handler throw_store 10 = [2] @ 3 # [4]"
    and f: "m_function throw_store 3 = Some throwing"
    by (simp_all add: throw_store_fields)
  have ret: "snd (invoke_loop [2] 5 throw_store) = None"
    and w1: "world ?s1 = 5"
    by (simp_all add: Handler_invoke_def Let_def add_to_count_def throw_store_fields)
  from ret have before: "invoke_loop [2] 5 throw_store = (?s1, None)"
    by (simp add: prod_eq_iff)
  from w1 have throws: "throwing 5 (world ?s1) = (5, Some (thrown 42))"
    by (simp add: throwing_def)
  note inst = Event_invoke_exception_propagates
    [of throw_store 10 "[2]" 3 "[4]" 5 ?s1 throwing 5 "thrown 42"]
  from inst list before f throws
  have run: "Event_invoke 10 5 throw_store =
        (?s1\<lparr>calls := calls ?s1 @ [(3, 5)], world := 5\<rparr>, Some (thrown 42))"
    and log: "calls (fst (Event_invoke 10 5 throw_store)) =
        calls throw_store @ map (\<lambda>k. (k, 5)) [2] @ [(3, 5)]"
    by blast+
  from run have exn: "snd (Event_invoke 10 5 throw_store) = Some (thrown 42)"
    and w: "world (fst (Event_invoke 10 5 throw_store)) = 5"
    by simp_all
  from log have log': "calls (fst (Event_invoke 10 5 throw_store)) = [(2, 5), (3, 5)]"
    by (simp add: throw_store_fields)
  from inst have same: "m_handler (fst (Event_invoke 10 5 throw_store)) = m_handler throw_store"
    by blast
  from list ret f throws exn log' w same show ?thesis by blast
qed

section \<open>Reset\<close>

text \<open>
  Claim C5. \<open>Handler::reset\<close> erases the Handler from the vector of each Event in its
  \<open>m_subscribedTo\<close>, once for each entry, and clears \<open>m_subscribedTo\<close>;
  \<open>Event::reset\<close> erases the Event from the vector of each Handler in its \<open>m_handler\<close>,
  once for each entry, and clears \<open>m_handler\<close>. On a mirrored store this removes every
  entry of the receiver on the other side, leaves the order of the remaining entries, and
  the store stays mirrored. A second reset, and a reset of an object with an empty
  vector, return the store as it is.
\<close>

theorem reset_severs_both_sides:
  "Handler_reset h s =
     s\<lparr>m_handler := (\<lambda>e. (remove1 h ^^ count_list (m_subscribedTo s h) e) (m_handler s e)),
       m_subscribedTo := (m_subscribedTo s)(h := [])\<rparr> \<and>
   Event_reset e s =
     s\<lparr>m_subscribedTo := (\<lambda>h. (remove1 e ^^ count_list (m_handler s e) h) (m_subscribedTo s h)),
       m_handler := (m_handler s)(e := [])\<rparr> \<and>
   (mirrored s \<longrightarrow>
      m_handler (Handler_reset h s) = (\<lambda>e. filter (\<lambda>k. k \<noteq> h) (m_handler s e)) \<and>
      m_subscribedTo (Event_reset e s) = (\<lambda>h. filter (\<lambda>k. k \<noteq> e) (m_subscribedTo s h)) \<and>
      mirrored (Handler_reset h s) \<and> mirrored (Event_reset e s)) \<and>
   Handler_reset h (Handler_reset h s) = Handler_reset h s \<and>
   Event_reset e (Event_reset e s) = Event_reset e s \<and>
   (m_subscribedTo s h = [] \<longrightarrow> Handler_reset h s = s) \<and>
   (m_handler s e = [] \<longrightarrow> Event_reset e s = s)"
proof -
  have severed: "m_handler (Handler_reset h s) = (\<lambda>e. filter (\<lambda>k. k \<noteq> h) (m_handler s e)) \<and>
      m_subscribedTo (Event_reset e s) = (\<lambda>h. filter (\<lambda>k. k \<noteq> e) (m_subscribedTo s h)) \<and>
      mirrored (Handler_reset h s) \<and> mirrored (Event_reset e s)"
    if inv: "mirrored s"
  proof -
    from inv have eq: "count_list (m_subscribedTo s k) d = count_list (m_handler s d) k" for k d
      by (simp add: mirrored_def)
    have "(remove1 h ^^ count_list (m_subscribedTo s h) d) (m_handler s d) =
        filter (\<lambda>k. k \<noteq> h) (m_handler s d)" for d
      by (rule remove1_funpow_filter) (simp add: eq)
    then have hs: "m_handler (Handler_reset h s) = (\<lambda>e. filter (\<lambda>k. k \<noteq> h) (m_handler s e))"
      by (simp add: Handler_reset_eq)
    have "(remove1 e ^^ count_list (m_handler s e) k) (m_subscribedTo s k) =
        filter (\<lambda>d. d \<noteq> e) (m_subscribedTo s k)" for k
      by (rule remove1_funpow_filter) (simp add: eq)
    then have es: "m_subscribedTo (Event_reset e s) =
        (\<lambda>h. filter (\<lambda>k. k \<noteq> e) (m_subscribedTo s h))"
      by (simp add: Event_reset_eq)
    from hs es inv show ?thesis
      by (simp add: mirrored_Handler_reset mirrored_Event_reset)
  qed
  have again: "Handler_reset h (Handler_reset h s) = Handler_reset h s"
    "Event_reset e (Event_reset e s) = Event_reset e s"
    by (simp_all add: Handler_reset_eq [of h "Handler_reset h s"]
          Event_reset_eq [of e "Event_reset e s"])
      (simp_all add: Handler_reset_eq Event_reset_eq)
  have noop: "m_subscribedTo s h = [] \<longrightarrow> Handler_reset h s = s"
    "m_handler s e = [] \<longrightarrow> Event_reset e s = s"
    by (simp_all add: Handler_reset_def Event_reset_def Let_def fun_upd_idem)
  from severed have "mirrored s \<longrightarrow>
      m_handler (Handler_reset h s) = (\<lambda>e. filter (\<lambda>k. k \<noteq> h) (m_handler s e)) \<and>
      m_subscribedTo (Event_reset e s) = (\<lambda>h. filter (\<lambda>k. k \<noteq> e) (m_subscribedTo s h)) \<and>
      mirrored (Handler_reset h s) \<and> mirrored (Event_reset e s)"
    by blast
  with Handler_reset_eq [of h s] Event_reset_eq [of e s] again noop show ?thesis
    by (intro conjI) assumption+
qed

theorem reset_severs_both_sides_witness:
  "mirrored twice_store \<and>
   m_handler (Handler_reset 2 twice_store) 10 = [3] \<and>
   m_subscribedTo (Handler_reset 2 twice_store) 2 = [] \<and>
   m_subscribedTo (Event_reset 10 twice_store) 2 = [] \<and>
   m_subscribedTo (Event_reset 10 twice_store) 3 = [] \<and>
   m_handler (Event_reset 10 twice_store) 10 = [] \<and>
   m_subscribedTo fresh_store 2 = [] \<and> Handler_reset 2 fresh_store = fresh_store \<and>
   m_handler fresh_store 10 = [] \<and> Event_reset 10 fresh_store = fresh_store"
proof -
  note inst = reset_severs_both_sides [of 2 twice_store 10]
  note inst' = reset_severs_both_sides [of 2 fresh_store 10]
  from inst mirrored_twice_store
  have hs: "m_handler (Handler_reset 2 twice_store) =
      (\<lambda>e. filter (\<lambda>k. k \<noteq> 2) (m_handler twice_store e))"
    and es: "m_subscribedTo (Event_reset 10 twice_store) =
      (\<lambda>h. filter (\<lambda>k. k \<noteq> 10) (m_subscribedTo twice_store h))"
    by blast+
  from hs have a: "m_handler (Handler_reset 2 twice_store) 10 = [3]"
    by (simp add: twice_store_fields)
  from es have b: "m_subscribedTo (Event_reset 10 twice_store) 2 = []"
    "m_subscribedTo (Event_reset 10 twice_store) 3 = []"
    by (simp_all add: twice_store_fields)
  from inst have "Handler_reset 2 twice_store =
     twice_store\<lparr>m_handler := (\<lambda>e. (remove1 2 ^^ count_list (m_subscribedTo twice_store 2) e)
          (m_handler twice_store e)),
       m_subscribedTo := (m_subscribedTo twice_store)(2 := [])\<rparr>"
    by (rule conjunct1)
  then have c: "m_subscribedTo (Handler_reset 2 twice_store) 2 = []"
    by simp
  from inst have "Event_reset 10 twice_store =
     twice_store\<lparr>m_subscribedTo := (\<lambda>h. (remove1 10 ^^ count_list (m_handler twice_store 10) h)
          (m_subscribedTo twice_store h)),
       m_handler := (m_handler twice_store)(10 := [])\<rparr>"
    by blast
  then have d: "m_handler (Event_reset 10 twice_store) 10 = []"
    by simp
  have empty: "m_subscribedTo fresh_store 2 = []" "m_handler fresh_store 10 = []"
    by (simp_all add: fresh_store_fields)
  with inst' have noop: "Handler_reset 2 fresh_store = fresh_store"
    "Event_reset 10 fresh_store = fresh_store"
    by blast+
  from mirrored_twice_store a b c d empty noop show ?thesis
    by blast
qed

section \<open>Invoking a moved-from Handler\<close>

text \<open>
  Claim C9. After a Handler is move-constructed from the Handler \<open>other\<close>, \<open>other\<close> holds
  the empty function object and no subscriptions, and \<open>Handler::invoke\<close> on it throws
  \<open>std::bad_function_call\<close>; the new Handler holds the reaction \<open>other\<close> had.
\<close>

theorem moved_from_Handler_invoke_throws:
  "this \<noteq> other \<Longrightarrow>
     m_function (Handler_move_ctor this other s) other = None \<and>
     m_subscribedTo (Handler_move_ctor this other s) other = [] \<and>
     m_function (Handler_move_ctor this other s) this = m_function s other \<and>
     snd (Handler_invoke other args (Handler_move_ctor this other s)) = Some bad_function_call"
  by (simp add: Handler_move_ctor_def Handler_swap_eq Handler_invoke_def Let_def)

theorem moved_from_Handler_invoke_throws_witness:
  "(5::nat) \<noteq> 2 \<and>
   m_function twice_store 2 = Some add_to_count \<and>
   m_function (Handler_move_ctor 5 2 twice_store) 2 = None \<and>
   m_subscribedTo (Handler_move_ctor 5 2 twice_store) 2 = [] \<and>
   m_function (Handler_move_ctor 5 2 twice_store) 5 = Some add_to_count \<and>
   snd (Handler_invoke 2 7 (Handler_move_ctor 5 2 twice_store)) = Some bad_function_call"
  using moved_from_Handler_invoke_throws [of 5 2 twice_store 7]
  by (simp add: twice_store_more)

section \<open>Swap on a mirrored store\<close>

lemma count_list_filter:
  "count_list (filter P xs) y = (if P y then count_list xs y else 0)"
  by (induction xs) auto

lemma last_append_replicate: "0 < n \<Longrightarrow> last (xs @ replicate n x) = x"
  by (cases n) (simp_all add: replicate_append_same [symmetric] del: replicate_Suc)

lemma count_list_pos_iff: "0 < count_list xs x \<longleftrightarrow> x \<in> set xs"
  using count_list_0_iff [of xs x] by auto

lemma m_handler_Handler_swap:
  assumes "this \<noteq> other" and inv: "mirrored s"
  shows "m_handler (Handler_swap this other s) e =
           filter (\<lambda>k. k \<noteq> this \<and> k \<noteq> other) (m_handler s e)
           @ replicate (count_list (m_subscribedTo s other) e) this
           @ replicate (count_list (m_subscribedTo s this) e) other"
proof -
  from inv have eq: "count_list (m_subscribedTo s k) d = count_list (m_handler s d) k" for k d
    by (simp add: mirrored_def)
  have one: "(remove1 this ^^ count_list (m_subscribedTo s this) e) (m_handler s e) =
      filter (\<lambda>k. k \<noteq> this) (m_handler s e)"
    by (rule remove1_funpow_filter) (simp add: eq)
  have two: "(remove1 other ^^ count_list (m_subscribedTo s other) e)
        (filter (\<lambda>k. k \<noteq> this) (m_handler s e)) =
      filter (\<lambda>k. k \<noteq> other) (filter (\<lambda>k. k \<noteq> this) (m_handler s e))"
    by (rule remove1_funpow_filter) (simp add: eq count_list_filter)
  have "filter (\<lambda>k. k \<noteq> other) (filter (\<lambda>k. k \<noteq> this) (m_handler s e)) =
      filter (\<lambda>k. k \<noteq> this \<and> k \<noteq> other) (m_handler s e)"
    by (simp add: conj_commute)
  with one two show ?thesis
    by (simp add: Handler_swap_eq)
qed

lemma m_subscribedTo_Event_swap:
  assumes "this \<noteq> other" and inv: "mirrored s"
  shows "m_subscribedTo (Event_swap this other s) h =
           filter (\<lambda>d. d \<noteq> this \<and> d \<noteq> other) (m_subscribedTo s h)
           @ replicate (count_list (m_handler s other) h) this
           @ replicate (count_list (m_handler s this) h) other"
proof -
  from inv have eq: "count_list (m_subscribedTo s k) d = count_list (m_handler s d) k" for k d
    by (simp add: mirrored_def)
  have one: "(remove1 this ^^ count_list (m_handler s this) h) (m_subscribedTo s h) =
      filter (\<lambda>d. d \<noteq> this) (m_subscribedTo s h)"
    by (rule remove1_funpow_filter) (simp add: eq)
  have two: "(remove1 other ^^ count_list (m_handler s other) h)
        (filter (\<lambda>d. d \<noteq> this) (m_subscribedTo s h)) =
      filter (\<lambda>d. d \<noteq> other) (filter (\<lambda>d. d \<noteq> this) (m_subscribedTo s h))"
    by (rule remove1_funpow_filter) (simp add: eq count_list_filter)
  have "filter (\<lambda>d. d \<noteq> other) (filter (\<lambda>d. d \<noteq> this) (m_subscribedTo s h)) =
      filter (\<lambda>d. d \<noteq> this \<and> d \<noteq> other) (m_subscribedTo s h)"
    by (simp add: conj_commute)
  with one two show ?thesis
    by (simp add: Event_swap_eq)
qed

text \<open>
  Every operation keeps the store mirrored, the two swaps when their operands are
  different objects.
\<close>

lemma mirrored_preserved:
  assumes "mirrored s"
  shows "mirrored (Event_subscribe e h s)" and "mirrored (Event_unsubscribe e h s)"
    and "mirrored (Handler_reset h s)" and "mirrored (Event_reset e s)"
    and "mirrored (Handler_dtor h s)" and "mirrored (Event_dtor e s)"
    and "h \<noteq> h' \<Longrightarrow> mirrored (Handler_swap h h' s)"
    and "e \<noteq> e' \<Longrightarrow> mirrored (Event_swap e e' s)"
  using assms
  by (simp_all add: mirrored_Event_subscribe mirrored_Event_unsubscribe mirrored_Handler_reset
        mirrored_Event_reset mirrored_Handler_swap mirrored_Event_swap Handler_dtor_def
        Event_dtor_def)

lemma single_store_fields:
  "m_handler single_store 10 = [2]"
  "m_subscribedTo single_store 2 = [10]"
  "m_function single_store 2 = Some add_to_count"
  "world single_store = 0"
  "calls single_store = []"
  by (simp_all add: single_store_def Event_subscribe_eq fresh_store_fields)

lemma mirrored_single_store: "mirrored single_store"
  unfolding single_store_def by (intro mirrored_Event_subscribe mirrored_fresh_store)

lemma pairs_store_fields:
  "m_handler pairs_store = (\<lambda>_. [])(10 := [2], 20 := [3])"
  "m_subscribedTo pairs_store = (\<lambda>_. [])(2 := [10], 3 := [20])"
  "m_function pairs_store = (\<lambda>_. None)(2 := Some add_to_count, 3 := Some throwing)"
  by (simp_all add: pairs_store_def Event_subscribe_eq Handler_ctor_def Event_ctor_def
        empty_store_def fun_eq_iff)

lemma mirrored_pairs_store: "mirrored pairs_store"
  unfolding pairs_store_def
  by (intro mirrored_Event_subscribe mirrored_Handler_ctor mirrored_Event_ctor
        mirrored_empty_store)
    (simp_all add: Handler_ctor_def Event_ctor_def empty_store_def)

lemma throw_store_subscriptions:
  "m_subscribedTo throw_store 2 = [10]"
  "m_subscribedTo throw_store 3 = [10]"
  "m_subscribedTo throw_store 4 = [10]"
  by (simp_all add: throw_store_def Event_subscribe_eq Handler_ctor_def Event_ctor_def
        empty_store_def)

lemma mirrored_Handler_move_ctor:
  assumes "mirrored s" and "h \<noteq> h'" and fresh: "\<forall>d. h \<notin> set (m_handler s d)"
  shows "mirrored (s\<lparr>m_function := (m_function s)(h := None),
                     m_subscribedTo := (m_subscribedTo s)(h := [])\<rparr>)"
proof -
  from fresh have "count_list (m_handler s d) h = 0" for d
    using count_list_0_iff [of "m_handler s d" h] by blast
  with assms(1) show ?thesis
    by (simp add: mirrored_def)
qed

lemma mirrored_Event_move_ctor:
  assumes "mirrored s" and fresh: "\<forall>k. e \<notin> set (m_subscribedTo s k)"
  shows "mirrored (s\<lparr>m_handler := (m_handler s)(e := [])\<rparr>)"
  using mirrored_Event_ctor [OF assms] by (simp add: Event_ctor_def)

section \<open>Where swap puts the Handlers\<close>

text \<open>
  Claim C10, as amended. \<open>Handler::swap\<close> of two different Handlers on a mirrored store
  rebuilds the vector of every Event: first the entries of all other Handlers in their
  old order, then one entry of the receiver \<open>this\<close> for each subscription \<open>other\<close> had
  to that Event, then one entry of \<open>other\<close> for each subscription \<open>this\<close> had. Hence
  \<open>other\<close> is last in every Event that \<open>this\<close> was subscribed to, and \<open>this\<close> is last in
  every Event that \<open>other\<close> was subscribed to and \<open>this\<close> was not.
\<close>

theorem Handler_swap_appends:
  assumes "this \<noteq> other" and "mirrored s"
  shows "m_handler (Handler_swap this other s) e =
           filter (\<lambda>k. k \<noteq> this \<and> k \<noteq> other) (m_handler s e)
           @ replicate (count_list (m_subscribedTo s other) e) this
           @ replicate (count_list (m_subscribedTo s this) e) other \<and>
         (e \<in> set (m_subscribedTo s this) \<longrightarrow>
            last (m_handler (Handler_swap this other s) e) = other) \<and>
         (e \<in> set (m_subscribedTo s other) \<and> e \<notin> set (m_subscribedTo s this) \<longrightarrow>
            last (m_handler (Handler_swap this other s) e) = this)"
proof -
  note list = m_handler_Handler_swap [OF assms, of e]
  have "last (m_handler (Handler_swap this other s) e) = other"
    if "e \<in> set (m_subscribedTo s this)"
  proof -
    from that have "0 < count_list (m_subscribedTo s this) e"
      by (simp add: count_list_pos_iff)
    then show ?thesis
      unfolding list append_assoc [symmetric] by (rule last_append_replicate)
  qed
  moreover have "last (m_handler (Handler_swap this other s) e) = this"
    if "e \<in> set (m_subscribedTo s other)" and "e \<notin> set (m_subscribedTo s this)"
  proof -
    from that(2) have none: "count_list (m_subscribedTo s this) e = 0"
      by (simp add: count_list_0_iff)
    from that(1) have "0 < count_list (m_subscribedTo s other) e"
      by (simp add: count_list_pos_iff)
    then have "last (filter (\<lambda>k. k \<noteq> this \<and> k \<noteq> other) (m_handler s e)
        @ replicate (count_list (m_subscribedTo s other) e) this) = this"
      by (rule last_append_replicate)
    with none show ?thesis
      by (simp add: list)
  qed
  ultimately show ?thesis
    using list by blast
qed

theorem Handler_swap_appends_witness:
  "(2::nat) \<noteq> 4 \<and> mirrored throw_store \<and>
   10 \<in> set (m_subscribedTo throw_store 2) \<and>
   m_handler throw_store 10 = [2, 3, 4] \<and>
   m_handler (Handler_swap 2 4 throw_store) 10 = [3, 2, 4] \<and>
   last (m_handler (Handler_swap 2 4 throw_store) 10) = 4 \<and>
   (2::nat) \<noteq> 3 \<and> mirrored pairs_store \<and>
   20 \<in> set (m_subscribedTo pairs_store 3) \<and> 20 \<notin> set (m_subscribedTo pairs_store 2) \<and>
   last (m_handler (Handler_swap 2 3 pairs_store) 20) = 2"
proof -
  have ne: "(2::nat) \<noteq> 4" "(2::nat) \<noteq> 3"
    by simp_all
  have mem: "10 \<in> set (m_subscribedTo throw_store 2)"
    "20 \<in> set (m_subscribedTo pairs_store 3)" "20 \<notin> set (m_subscribedTo pairs_store 2)"
    by (simp_all add: throw_store_subscriptions pairs_store_fields)
  note a = Handler_swap_appends [OF ne(1) mirrored_throw_store, of 10]
  note b = Handler_swap_appends [OF ne(2) mirrored_pairs_store, of 20]
  from a have "m_handler (Handler_swap 2 4 throw_store) 10 =
           filter (\<lambda>k. k \<noteq> 2 \<and> k \<noteq> 4) (m_handler throw_store 10)
           @ replicate (count_list (m_subscribedTo throw_store 4) 10) 2
           @ replicate (count_list (m_subscribedTo throw_store 2) 10) 4"
    by (rule conjunct1)
  then have list: "m_handler (Handler_swap 2 4 throw_store) 10 = [3, 2, 4]"
    by (simp add: throw_store_fields throw_store_subscriptions)
  from a mem(1) have la: "last (m_handler (Handler_swap 2 4 throw_store) 10) = 4"
    by blast
  from b mem(2,3) have lb: "last (m_handler (Handler_swap 2 3 pairs_store) 20) = 2"
    by blast
  from ne mem list la lb mirrored_throw_store mirrored_pairs_store throw_store_fields(1)
  show ?thesis by blast
qed

text \<open>
  The claim as stated fails when both Handlers are subscribed to the same Event: after
  swapping the Handlers 2 and 4 of Event 10, Handler 2 holds a subscription to Event 10
  and is followed there by Handler 4.
\<close>

theorem Handler_swap_last_position_counterexample:
  "10 \<in> set (m_subscribedTo (Handler_swap 2 4 throw_store) 2) \<and>
   m_handler (Handler_swap 2 4 throw_store) 10 = [3, 2, 4] \<and>
   last (m_handler (Handler_swap 2 4 throw_store) 10) \<noteq> 2"
proof -
  have "m_subscribedTo (Handler_swap 2 4 throw_store) 2 = [10]"
    by (simp add: Handler_swap_eq throw_store_subscriptions)
  moreover have "m_handler (Handler_swap 2 4 throw_store) 10 = [3, 2, 4]"
    by (simp add: m_handler_Handler_swap mirrored_throw_store throw_store_fields
          throw_store_subscriptions)
  ultimately show ?thesis by simp
qed

section \<open>Moves\<close>

text \<open>
  Claim C2, as amended. On a mirrored store, for a destination \<open>h\<close> (\<open>e\<close>) and a
  different source \<open>h'\<close> (\<open>e'\<close>): move construction into storage that no partner refers
  to leaves the source with no subscriptions (and, for a Handler, with the empty
  function object), no partner refers to the source any more, and the destination holds
  the source's former vector (and reaction), each partner holding the destination once
  for each entry it held of the source. Move assignment is a swap: the destination
  receives the source's former vector and reaction in the same way, and the source
  receives what the destination held, so it is empty only if the destination was. In
  all four cases the store stays mirrored.
\<close>

theorem move_transfers_subscriptions:
  assumes inv: "mirrored s" and hne: "h \<noteq> h'" and ene: "e \<noteq> e'"
  shows
   "((\<forall>d. h \<notin> set (m_handler s d)) \<longrightarrow>
       m_subscribedTo (Handler_move_ctor h h' s) h' = [] \<and>
       m_function (Handler_move_ctor h h' s) h' = None \<and>
       (\<forall>d. h' \<notin> set (m_handler (Handler_move_ctor h h' s) d)) \<and>
       m_subscribedTo (Handler_move_ctor h h' s) h = m_subscribedTo s h' \<and>
       m_function (Handler_move_ctor h h' s) h = m_function s h' \<and>
       (\<forall>d. m_handler (Handler_move_ctor h h' s) d =
            filter (\<lambda>k. k \<noteq> h') (m_handler s d)
            @ replicate (count_list (m_subscribedTo s h') d) h) \<and>
       mirrored (Handler_move_ctor h h' s)) \<and>
    (m_subscribedTo (Handler_move_assign h h' s) h = m_subscribedTo s h' \<and>
     m_function (Handler_move_assign h h' s) h = m_function s h' \<and>
     m_subscribedTo (Handler_move_assign h h' s) h' = m_subscribedTo s h \<and>
     m_function (Handler_move_assign h h' s) h' = m_function s h \<and>
     (\<forall>d. m_handler (Handler_move_assign h h' s) d =
          filter (\<lambda>k. k \<noteq> h \<and> k \<noteq> h') (m_handler s d)
          @ replicate (count_list (m_subscribedTo s h') d) h
          @ replicate (count_list (m_subscribedTo s h) d) h') \<and>
     mirrored (Handler_move_assign h h' s)) \<and>
    ((\<forall>k. e \<notin> set (m_subscribedTo s k)) \<longrightarrow>
       m_handler (Event_move_ctor e e' s) e' = [] \<and>
       (\<forall>k. e' \<notin> set (m_subscribedTo (Event_move_ctor e e' s) k)) \<and>
       m_handler (Event_move_ctor e e' s) e = m_handler s e' \<and>
       (\<forall>k. m_subscribedTo (Event_move_ctor e e' s) k =
            filter (\<lambda>d. d \<noteq> e') (m_subscribedTo s k)
            @ replicate (count_list (m_handler s e') k) e) \<and>
       mirrored (Event_move_ctor e e' s)) \<and>
    (m_handler (Event_move_assign e e' s) e = m_handler s e' \<and>
     m_handler (Event_move_assign e e' s) e' = m_handler s e \<and>
     (\<forall>k. m_subscribedTo (Event_move_assign e e' s) k =
          filter (\<lambda>d. d \<noteq> e \<and> d \<noteq> e') (m_subscribedTo s k)
          @ replicate (count_list (m_handler s e') k) e
          @ replicate (count_list (m_handler s e) k) e') \<and>
     mirrored (Event_move_assign e e' s))"
proof (intro conjI impI)
  assume fresh: "\<forall>d. h \<notin> set (m_handler s d)"
  let ?s0 = "s\<lparr>m_function := (m_function s)(h := None),
               m_subscribedTo := (m_subscribedTo s)(h := [])\<rparr>"
  have inv0: "mirrored ?s0"
    using inv hne fresh by (rule mirrored_Handler_move_ctor)
  have ctor: "Handler_move_ctor h h' s = Handler_swap h h' ?s0"
    by (simp add: Handler_move_ctor_def)
  have keep: "filter (\<lambda>k. k \<noteq> h \<and> k \<noteq> h') (m_handler s d) =
      filter (\<lambda>k. k \<noteq> h') (m_handler s d)" for d
    using fresh by (intro filter_cong) auto
  have list: "m_handler (Handler_move_ctor h h' s) d =
      filter (\<lambda>k. k \<noteq> h') (m_handler s d) @ replicate (count_list (m_subscribedTo s h') d) h"
    for d
    unfolding ctor m_handler_Handler_swap [OF hne inv0] using hne by (simp add: keep)
  show "m_subscribedTo (Handler_move_ctor h h' s) h' = []"
    using hne by (simp add: ctor Handler_swap_eq)
  show "m_function (Handler_move_ctor h h' s) h' = None"
    using hne by (simp add: ctor Handler_swap_eq)
  show "\<forall>d. h' \<notin> set (m_handler (Handler_move_ctor h h' s) d)"
    using hne by (simp add: list)
  show "m_subscribedTo (Handler_move_ctor h h' s) h = m_subscribedTo s h'"
    using hne by (simp add: ctor Handler_swap_eq)
  show "m_function (Handler_move_ctor h h' s) h = m_function s h'"
    using hne by (simp add: ctor Handler_swap_eq)
  show "\<forall>d. m_handler (Handler_move_ctor h h' s) d =
      filter (\<lambda>k. k \<noteq> h') (m_handler s d) @ replicate (count_list (m_subscribedTo s h') d) h"
    using list by blast
  show "mirrored (Handler_move_ctor h h' s)"
    unfolding ctor using inv0 hne by (rule mirrored_Handler_swap)
next
  show "m_subscribedTo (Handler_move_assign h h' s) h = m_subscribedTo s h'"
    using hne by (simp add: Handler_move_assign_def Handler_swap_eq)
  show "m_function (Handler_move_assign h h' s) h = m_function s h'"
    using hne by (simp add: Handler_move_assign_def Handler_swap_eq)
  show "m_subscribedTo (Handler_move_assign h h' s) h' = m_subscribedTo s h"
    by (simp add: Handler_move_assign_def Handler_swap_eq)
  show "m_function (Handler_move_assign h h' s) h' = m_function s h"
    by (simp add: Handler_move_assign_def Handler_swap_eq)
  show "\<forall>d. m_handler (Handler_move_assign h h' s) d =
          filter (\<lambda>k. k \<noteq> h \<and> k \<noteq> h') (m_handler s d)
          @ replicate (count_list (m_subscribedTo s h') d) h
          @ replicate (count_list (m_subscribedTo s h) d) h'"
    unfolding Handler_move_assign_def m_handler_Handler_swap [OF hne inv] by blast
  show "mirrored (Handler_move_assign h h' s)"
    unfolding Handler_move_assign_def using inv hne by (rule mirrored_Handler_swap)
next
  assume fresh: "\<forall>k. e \<notin> set (m_subscribedTo s k)"
  let ?s0 = "s\<lparr>m_handler := (m_handler s)(e := [])\<rparr>"
  have inv0: "mirrored ?s0"
    using inv fresh by (rule mirrored_Event_move_ctor)
  have ctor: "Event_move_ctor e e' s = Event_swap e e' ?s0"
    by (simp add: Event_move_ctor_def)
  have keep: "filter (\<lambda>d. d \<noteq> e \<and> d \<noteq> e') (m_subscribedTo s k) =
      filter (\<lambda>d. d \<noteq> e') (m_subscribedTo s k)" for k
    using fresh by (intro filter_cong) auto
  have list: "m_subscribedTo (Event_move_ctor e e' s) k =
      filter (\<lambda>d. d \<noteq> e') (m_subscribedTo s k) @ replicate (count_list (m_handler s e') k) e"
    for k
    unfolding ctor m_subscribedTo_Event_swap [OF ene inv0] using ene by (simp add: keep)
  show "m_handler (Event_move_ctor e e' s) e' = []"
    using ene by (simp add: ctor Event_swap_eq)
  show "\<forall>k. e' \<notin> set (m_subscribedTo (Event_move_ctor e e' s) k)"
    using ene by (simp add: list)
  show "m_handler (Event_move_ctor e e' s) e = m_handler s e'"
    using ene by (simp add: ctor Event_swap_eq)
  show "\<forall>k. m_subscribedTo (Event_move_ctor e e' s) k =
      filter (\<lambda>d. d \<noteq> e') (m_subscribedTo s k) @ replicate (count_list (m_handler s e') k) e"
    using list by blast
  show "mirrored (Event_move_ctor e e' s)"
    unfolding ctor using inv0 ene by (rule mirrored_Event_swap)
next
  show "m_handler (Event_move_assign e e' s) e = m_handler s e'"
    using ene by (simp add: Event_move_assign_def Event_swap_eq)
  show "m_handler (Event_move_assign e e' s) e' = m_handler s e"
    by (simp add: Event_move_assign_def Event_swap_eq)
  show "\<forall>k. m_subscribedTo (Event_move_assign e e' s) k =
          filter (\<lambda>d. d \<noteq> e \<and> d \<noteq> e') (m_subscribedTo s k)
          @ replicate (count_list (m_handler s e') k) e
          @ replicate (count_list (m_handler s e) k) e'"
    unfolding Event_move_assign_def m_subscribedTo_Event_swap [OF ene inv] by blast
  show "mirrored (Event_move_assign e e' s)"
    unfolding Event_move_assign_def using inv ene by (rule mirrored_Event_swap)
qed

theorem move_transfers_subscriptions_witness:
  "mirrored pairs_store \<and> (5::nat) \<noteq> 2 \<and> (30::nat) \<noteq> 10 \<and>
   (\<forall>d. 5 \<notin> set (m_handler pairs_store d)) \<and>
   (\<forall>k. 30 \<notin> set (m_subscribedTo pairs_store k)) \<and>
   m_subscribedTo (Handler_move_ctor 5 2 pairs_store) 2 = [] \<and>
   m_subscribedTo (Handler_move_ctor 5 2 pairs_store) 5 = [10] \<and>
   m_handler (Handler_move_ctor 5 2 pairs_store) 10 = [5] \<and>
   m_handler (Event_move_ctor 30 10 pairs_store) 10 = [] \<and>
   m_handler (Event_move_ctor 30 10 pairs_store) 30 = [2] \<and>
   m_subscribedTo (Event_move_ctor 30 10 pairs_store) 2 = [30] \<and>
   (2::nat) \<noteq> 3 \<and> (10::nat) \<noteq> 20 \<and>
   m_subscribedTo (Handler_move_assign 2 3 pairs_store) 2 = [20] \<and>
   m_subscribedTo (Handler_move_assign 2 3 pairs_store) 3 = [10] \<and>
   m_handler (Handler_move_assign 2 3 pairs_store) 10 = [3] \<and>
   m_handler (Handler_move_assign 2 3 pairs_store) 20 = [2] \<and>
   m_handler (Event_move_assign 10 20 pairs_store) 10 = [3] \<and>
   m_handler (Event_move_assign 10 20 pairs_store) 20 = [2] \<and>
   m_subscribedTo (Event_move_assign 10 20 pairs_store) 2 = [20] \<and>
   m_subscribedTo (Event_move_assign 10 20 pairs_store) 3 = [10]"
proof -
  have ne: "(5::nat) \<noteq> 2" "(30::nat) \<noteq> 10" "(2::nat) \<noteq> 3" "(10::nat) \<noteq> 20"
    by simp_all
  have fresh: "\<forall>d. 5 \<notin> set (m_handler pairs_store d)"
    "\<forall>k. 30 \<notin> set (m_subscribedTo pairs_store k)"
    by (simp_all add: pairs_store_fields)
  note c = move_transfers_subscriptions [OF mirrored_pairs_store ne(1) ne(2)]
  note a = move_transfers_subscriptions [OF mirrored_pairs_store ne(3) ne(4)]
  from c fresh(1) have
    "m_subscribedTo (Handler_move_ctor 5 2 pairs_store) 2 = []"
    "m_subscribedTo (Handler_move_ctor 5 2 pairs_store) 5 = m_subscribedTo pairs_store 2"
    "m_handler (Handler_move_ctor 5 2 pairs_store) 10 =
       filter (\<lambda>k. k \<noteq> 2) (m_handler pairs_store 10)
       @ replicate (count_list (m_subscribedTo pairs_store 2) 10) 5"
    by blast+
  then have hc: "m_subscribedTo (Handler_move_ctor 5 2 pairs_store) 2 = []"
    "m_subscribedTo (Handler_move_ctor 5 2 pairs_store) 5 = [10]"
    "m_handler (Handler_move_ctor 5 2 pairs_store) 10 = [5]"
    by (simp_all add: pairs_store_fields)
  from c fresh(2) have
    "m_handler (Event_move_ctor 30 10 pairs_store) 10 = []"
    "m_handler (Event_move_ctor 30 10 pairs_store) 30 = m_handler pairs_store 10"
    "m_subscribedTo (Event_move_ctor 30 10 pairs_store) 2 =
       filter (\<lambda>d. d \<noteq> 10) (m_subscribedTo pairs_store 2)
       @ replicate (count_list (m_handler pairs_store 10) 2) 30"
    by blast+
  then have ec: "m_handler (Event_move_ctor 30 10 pairs_store) 10 = []"
    "m_handler (Event_move_ctor 30 10 pairs_store) 30 = [2]"
    "m_subscribedTo (Event_move_ctor 30 10 pairs_store) 2 = [30]"
    by (simp_all add: pairs_store_fields)
  from a have
    "m_subscribedTo (Handler_move_assign 2 3 pairs_store) 2 = m_subscribedTo pairs_store 3"
    "m_subscribedTo (Handler_move_assign 2 3 pairs_store) 3 = m_subscribedTo pairs_store 2"
    "\<forall>d. m_handler (Handler_move_assign 2 3 pairs_store) d =
       filter (\<lambda>k. k \<noteq> 2 \<and> k \<noteq> 3) (m_handler pairs_store d)
       @ replicate (count_list (m_subscribedTo pairs_store 3) d) 2
       @ replicate (count_list (m_subscribedTo pairs_store 2) d) 3"
    by blast+
  then have ha: "m_subscribedTo (Handler_move_assign 2 3 pairs_store) 2 = [20]"
    "m_subscribedTo (Handler_move_assign 2 3 pairs_store) 3 = [10]"
    "m_handler (Handler_move_assign 2 3 pairs_store) 10 = [3]"
    "m_handler (Handler_move_assign 2 3 pairs_store) 20 = [2]"
    by (simp_all add: pairs_store_fields)
  from a have
    "m_handler (Event_move_assign 10 20 pairs_store) 10 = m_handler pairs_store 20"
    "m_handler (Event_move_assign 10 20 pairs_store) 20 = m_handler pairs_store 10"
    "\<forall>k. m_subscribedTo (Event_move_assign 10 20 pairs_store) k =
       filter (\<lambda>d. d \<noteq> 10 \<and> d \<noteq> 20) (m_subscribedTo pairs_store k)
       @ replicate (count_list (m_handler pairs_store 20) k) 10
       @ replicate (count_list (m_handler pairs_store 10) k) 20"
    by blast+
  then have ea: "m_handler (Event_move_assign 10 20 pairs_store) 10 = [3]"
    "m_handler (Event_move_assign 10 20 pairs_store) 20 = [2]"
    "m_subscribedTo (Event_move_assign 10 20 pairs_store) 2 = [20]"
    "m_subscribedTo (Event_move_assign 10 20 pairs_store) 3 = [10]"
    by (simp_all add: pairs_store_fields)
  from mirrored_pairs_store ne fresh hc ec ha ea show ?thesis
    by (intro conjI) assumption+
qed

text \<open>
  The claim as stated fails for move assignment to an object that has subscriptions:
  after \<open>h2 = std::move(h3)\<close> the source Handler 3 is subscribed to Event 10, and after
  \<open>e10 = std::move(e20)\<close> the source Event 20 holds Handler 2.
\<close>

theorem move_assign_source_not_empty_counterexample:
  "m_subscribedTo (Handler_move_assign 2 3 pairs_store) 3 = [10] \<and>
   m_subscribedTo (Handler_move_assign 2 3 pairs_store) 3 \<noteq> [] \<and>
   m_handler (Handler_move_assign 2 3 pairs_store) 10 = [3] \<and>
   m_handler (Event_move_assign 10 20 pairs_store) 20 = [2] \<and>
   m_handler (Event_move_assign 10 20 pairs_store) 20 \<noteq> []"
proof -
  have "m_subscribedTo (Handler_move_assign 2 3 pairs_store) 3 = [10]"
    by (simp add: Handler_move_assign_def Handler_swap_eq pairs_store_fields)
  moreover have "m_handler (Handler_move_assign 2 3 pairs_store) 10 = [3]"
    by (simp add: Handler_move_assign_def m_handler_Handler_swap mirrored_pairs_store
          pairs_store_fields)
  moreover have "m_handler (Event_move_assign 10 20 pairs_store) 20 = [2]"
    by (simp add: Event_move_assign_def Event_swap_eq pairs_store_fields)
  ultimately show ?thesis by simp
qed

section \<open>Swapping an object with itself\<close>

text \<open>
  Claim C1 at a failing input. Event 10 and Handler 2 are constructed and subscribed,
  which gives a mirrored store; swapping Handler 2 with itself, or Event 10 with itself
  (also through a move assignment to itself), gives a store that is not mirrored.
\<close>

theorem self_swap_breaks_mirroring:
  "mirrored single_store \<and>
   \<not> mirrored (Handler_swap 2 2 single_store) \<and>
   \<not> mirrored (Handler_move_assign 2 2 single_store) \<and>
   \<not> mirrored (Event_swap 10 10 single_store) \<and>
   \<not> mirrored (Event_move_assign 10 10 single_store)"
proof -
  have h: "count_list (m_subscribedTo (Handler_swap 2 2 single_store) 2) 10 = 1"
    "count_list (m_handler (Handler_swap 2 2 single_store) 10) 2 = 2"
    by (simp_all add: Handler_swap_eq single_store_fields)
  have e: "count_list (m_subscribedTo (Event_swap 10 10 single_store) 2) 10 = 2"
    "count_list (m_handler (Event_swap 10 10 single_store) 10) 2 = 1"
    by (simp_all add: Event_swap_eq single_store_fields)
  have "\<not> mirrored (Handler_swap 2 2 single_store)"
  proof
    assume "mirrored (Handler_swap 2 2 single_store)"
    then have "count_list (m_subscribedTo (Handler_swap 2 2 single_store) 2) 10 =
        count_list (m_handler (Handler_swap 2 2 single_store) 10) 2"
      unfolding mirrored_def by blast
    with h show False by simp
  qed
  moreover have "\<not> mirrored (Event_swap 10 10 single_store)"
  proof
    assume "mirrored (Event_swap 10 10 single_store)"
    then have "count_list (m_subscribedTo (Event_swap 10 10 single_store) 2) 10 =
        count_list (m_handler (Event_swap 10 10 single_store) 10) 2"
      unfolding mirrored_def by blast
    with e show False by simp
  qed
  ultimately show ?thesis
    using mirrored_single_store by (simp add: Handler_move_assign_def Event_move_assign_def)
qed

text \<open>
  Claim C8 at a failing input. \<open>Handler::swap\<close> of Handler 2 with itself keeps its
  reaction and its \<open>m_subscribedTo\<close> and leaves Event 10 with two entries of Handler 2,
  so that one \<open>invoke\<close> runs the reaction twice and the destructor of Handler 2 leaves
  one entry behind in Event 10. \<open>Event::swap\<close> of Event 10 with itself leaves Handler 2
  with two entries of Event 10.
\<close>

theorem self_swap_duplicates_entries:
  "m_handler single_store 10 = [2] \<and> m_subscribedTo single_store 2 = [10] \<and>
   m_handler (Handler_swap 2 2 single_store) 10 = [2, 2] \<and>
   m_subscribedTo (Handler_swap 2 2 single_store) 2 = [10] \<and>
   m_function (Handler_swap 2 2 single_store) 2 = m_function single_store 2 \<and>
   m_subscribedTo (Event_swap 10 10 single_store) 2 = [10, 10] \<and>
   m_handler (Event_swap 10 10 single_store) 10 = [2] \<and>
   world (fst (Event_invoke 10 5 single_store)) = 5 \<and>
   world (fst (Event_invoke 10 5 (Handler_swap 2 2 single_store))) = 10 \<and>
   m_handler (Handler_dtor 2 (Handler_swap 2 2 single_store)) 10 = [2]"
proof -
  have before: "m_handler single_store 10 = [2]" "m_subscribedTo single_store 2 = [10]"
    by (simp_all add: single_store_fields)
  have h: "m_handler (Handler_swap 2 2 single_store) 10 = [2, 2]"
    "m_subscribedTo (Handler_swap 2 2 single_store) 2 = [10]"
    "m_function (Handler_swap 2 2 single_store) 2 = m_function single_store 2"
    "world (Handler_swap 2 2 single_store) = 0"
    by (simp_all add: Handler_swap_eq single_store_fields)
  have e: "m_subscribedTo (Event_swap 10 10 single_store) 2 = [10, 10]"
    "m_handler (Event_swap 10 10 single_store) 10 = [2]"
    by (simp_all add: Event_swap_eq single_store_fields)
  have once: "world (fst (Event_invoke 10 5 single_store)) = 5"
    by (simp add: Event_invoke_def Handler_invoke_def Let_def add_to_count_def
          single_store_fields)
  have twice: "world (fst (Event_invoke 10 5 (Handler_swap 2 2 single_store))) = 10"
    by (simp add: Event_invoke_def Handler_invoke_def Let_def add_to_count_def h
          single_store_fields)
  have dangling: "m_handler (Handler_dtor 2 (Handler_swap 2 2 single_store)) 10 = [2]"
    by (simp add: Handler_dtor_def Handler_reset_eq h)
  from before h(1,2,3) e once twice dangling show ?thesis
    by (intro conjI) assumption+
qed

end
